theory Spec2Isabelle
  imports Complex_Main "HOL-Library.Word"
begin

section \<open>JavaScript values\<close>

text \<open>
  \<^verbatim>\<open>lib/primitives/abstractblock.js\<close> is dynamically typed: an options object is any
  JavaScript value, its properties are looked up by name, and \<^verbatim>\<open>assert\<close> tests
  truthiness. A finite number is a rational here (every finite double is one); the three
  non-finite numbers are constructors of their own. An object is the association list of
  its own properties.
\<close>

datatype jsvalue =
    JUndefined
  | JNull
  | JBool bool
  | JNum rat
  | JNaN
  | JInfinity
  | JNegInfinity
  | JStr string
  | JObj "(string \<times> jsvalue) list"

text \<open>ToBoolean, as \<^verbatim>\<open>assert(x)\<close>, \<^verbatim>\<open>!x\<close> and \<^verbatim>\<open>!!x\<close> apply it.\<close>

fun truthy :: "jsvalue \<Rightarrow> bool" where
  "truthy JUndefined = False"
| "truthy JNull = False"
| "truthy (JBool b) = b"
| "truthy (JNum q) = (q \<noteq> 0)"
| "truthy JNaN = False"
| "truthy JInfinity = True"
| "truthy JNegInfinity = True"
| "truthy (JStr s) = (s \<noteq> [])"
| "truthy (JObj kvs) = True"

text \<open>
  Property access \<^verbatim>\<open>o.name\<close> on a value that passed \<^verbatim>\<open>assert(o)\<close>: an object
  yields the property or \<^verbatim>\<open>undefined\<close>; a primitive has none of the property names
  this file reads (version, prevBlock, merkleRoot, ts, bits, nonce, mutable).
\<close>

fun js_get :: "jsvalue \<Rightarrow> string \<Rightarrow> jsvalue" where
  "js_get (JObj kvs) k = (case map_of kvs k of Some v \<Rightarrow> v | None \<Rightarrow> JUndefined)"
| "js_get v k = JUndefined"

text \<open>\<^verbatim>\<open>typeof v === 'string'\<close>.\<close>

fun isString :: "jsvalue \<Rightarrow> bool" where
  "isString (JStr s) = True"
| "isString v = False"

text \<open>
  Modelled from the spec: \<^verbatim>\<open>util.isNumber\<close> (lib/utils/util.js is not among the
  sources). The spec calls the accepted values "numeric"; taken as the values of type
  number that are finite, of either sign and integral or not.
\<close>

fun isNumber :: "jsvalue \<Rightarrow> bool" where
  "isNumber (JNum q) = True"
| "isNumber v = False"

text \<open>\<^verbatim>\<open>v != null\<close>: false for \<^verbatim>\<open>null\<close> and \<^verbatim>\<open>undefined\<close> only.\<close>

fun notNull :: "jsvalue \<Rightarrow> bool" where
  "notNull JUndefined = False"
| "notNull JNull = False"
| "notNull v = True"

fun num_of :: "jsvalue \<Rightarrow> rat" where
  "num_of (JNum q) = q"
| "num_of v = 0"

fun str_of :: "jsvalue \<Rightarrow> string" where
  "str_of (JStr s) = s"
| "str_of v = []"

section \<open>Errors\<close>

text \<open>
  Every failure in the file is a thrown exception. The kinds follow the spec's taxonomy:
  \<^verbatim>\<open>assert(options, 'Block data is required.')\<close> is \<open>InvalidData\<close>, the field
  assertions that follow it are \<open>TypeMismatch\<close>, a read past the end of the reader's
  data is \<open>TruncatedInput\<close>, the abstract \<^verbatim>\<open>verifyBody\<close> is \<open>NotImplemented\<close>.
  \<open>EncodeFailure\<close> is the writer's own assertion (a hash string that is not 64 hex
  digits, or a buffer not filled exactly); the spec gives it no name.

  A method that assigns to \<^verbatim>\<open>this\<close> returns, when it throws, the error together with
  the state the object is left in (\<open>parseOptions\<close>, \<open>parseJSON\<close>, \<open>parseAbbr\<close>).
  \<open>hash\<close>, \<open>powHash\<close>, \<open>verifyPOW\<close> and \<open>rhash\<close> can only throw inside
  \<^verbatim>\<open>abbr()\<close>, before their first assignment, so their failure leaves the object as it
  was and is the error alone.
\<close>

datatype error = InvalidData | TypeMismatch | TruncatedInput | NotImplemented | EncodeFailure

section \<open>Bytes and hexadecimal strings\<close>

type_synonym byte = "8 word"
type_synonym buffer = "byte list"

definition hex_digits :: string where
  "hex_digits = ''0123456789abcdef''"

definition hex_digit :: "nat \<Rightarrow> char" where
  "hex_digit n = hex_digits ! (n mod 16)"

text \<open>\<^verbatim>\<open>buf.toString('hex')\<close>: two lowercase digits per byte, high nibble first.\<close>

primrec to_hex :: "buffer \<Rightarrow> string" where
  "to_hex [] = []"
| "to_hex (b # bs) = hex_digit (unat b div 16) # hex_digit (unat b mod 16) # to_hex bs"

text \<open>Decoding accepts digits of either case, as the platform's hex decoder does.\<close>

definition digit_val :: "char \<Rightarrow> nat option" where
  "digit_val c =
     (let k = (of_char c :: nat) in
      if 48 \<le> k \<and> k \<le> 57 then Some (k - 48)
      else if 97 \<le> k \<and> k \<le> 102 then Some (k - 87)
      else if 65 \<le> k \<and> k \<le> 70 then Some (k - 55)
      else None)"

fun from_hex :: "string \<Rightarrow> buffer option" where
  "from_hex [] = Some []"
| "from_hex [c] = None"
| "from_hex (c # d # cs) =
     (case digit_val c of
        None \<Rightarrow> None
      | Some x \<Rightarrow>
          (case digit_val d of
             None \<Rightarrow> None
           | Some y \<Rightarrow>
               (case from_hex cs of
                  None \<Rightarrow> None
                | Some bs \<Rightarrow> Some (of_nat (16 * x + y) # bs))))"

text \<open>
  Modelled from the spec: \<^verbatim>\<open>util.revHex\<close> (lib/utils/util.js is not among the
  sources). The spec has it reverse the byte order of a hexadecimal string: the string is
  cut into two-character groups from the left and the groups are put in reverse order.
\<close>

fun revHex_loop :: "string \<Rightarrow> string \<Rightarrow> string" where
  "revHex_loop [] out = out"
| "revHex_loop [c] out = c # out"
| "revHex_loop (c # d # cs) out = revHex_loop cs (c # d # out)"

definition revHex :: "string \<Rightarrow> string" where
  "revHex s = revHex_loop s []"

text \<open>
  Modelled from the spec: \<^verbatim>\<open>encoding.NULL_HASH\<close> (lib/utils/encoding.js is not among
  the sources), the all-zero 32-byte hash as a hex string.
\<close>

definition NULL_HASH :: string where
  "NULL_HASH = replicate 64 CHR ''0''"

section \<open>The binary codec\<close>

text \<open>
  Modelled from the spec: \<^verbatim>\<open>StaticWriter\<close> and \<^verbatim>\<open>BufferReader\<close>
  (lib/utils/staticwriter.js and lib/utils/reader.js are not among the sources). The spec
  describes a fixed-capacity writer and a reader over byte buffers that produce and
  consume little-endian unsigned 32-bit integers and fixed-length (32-byte) hash values,
  the reader failing with TruncatedInput when too few bytes remain.
  A writer is its capacity and the bytes written so far. The spec does not say what the
  writer does with a number outside the unsigned 32-bit range: it is taken to write its
  ToUint32 (truncated towards zero, modulo \<open>2^32\<close>), as an unchecked buffer write does.
  A failed read leaves the reader where it was.
\<close>

definition toUint32 :: "rat \<Rightarrow> nat" where
  "toUint32 q = nat ((if q < 0 then \<lceil>q\<rceil> else \<lfloor>q\<rfloor>) mod 2 ^ 32)"

definition le32 :: "nat \<Rightarrow> buffer" where
  "le32 n = [of_nat n, of_nat (n div 256), of_nat (n div 65536), of_nat (n div 16777216)]"

fun u32_of_le :: "buffer \<Rightarrow> nat" where
  "u32_of_le [b0, b1, b2, b3] = unat b0 + 256 * unat b1 + 65536 * unat b2 + 16777216 * unat b3"
| "u32_of_le bs = 0"

record StaticWriter =
  sw_size :: nat
  sw_data :: buffer

definition new_StaticWriter :: "nat \<Rightarrow> StaticWriter" where
  "new_StaticWriter n = \<lparr>sw_size = n, sw_data = []\<rparr>"

definition writeU32 :: "StaticWriter \<Rightarrow> rat \<Rightarrow> StaticWriter" where
  "writeU32 bw v = bw\<lparr>sw_data := sw_data bw @ le32 (toUint32 v)\<rparr>"

definition writeHash :: "StaticWriter \<Rightarrow> string \<Rightarrow> error + StaticWriter" where
  "writeHash bw s =
     (if length s \<noteq> 64 then Inl EncodeFailure
      else case from_hex s of
             None \<Rightarrow> Inl EncodeFailure
           | Some bs \<Rightarrow> Inr (bw\<lparr>sw_data := sw_data bw @ bs\<rparr>))"

definition render :: "StaticWriter \<Rightarrow> error + buffer" where
  "render bw = (if length (sw_data bw) = sw_size bw then Inr (sw_data bw) else Inl EncodeFailure)"

record BufferReader =
  br_data :: buffer
  br_offset :: nat

definition new_BufferReader :: "buffer \<Rightarrow> BufferReader" where
  "new_BufferReader d = \<lparr>br_data = d, br_offset = 0\<rparr>"

definition readU32 :: "BufferReader \<Rightarrow> error + (rat \<times> BufferReader)" where
  "readU32 br =
     (if br_offset br + 4 \<le> length (br_data br)
      then Inr (of_nat (u32_of_le (take 4 (drop (br_offset br) (br_data br)))),
                br\<lparr>br_offset := br_offset br + 4\<rparr>)
      else Inl TruncatedInput)"

text \<open>\<^verbatim>\<open>br.readHash('hex')\<close>: the next 32 bytes, as a hex string.\<close>

definition readHash :: "BufferReader \<Rightarrow> error + (string \<times> BufferReader)" where
  "readHash br =
     (if br_offset br + 32 \<le> length (br_data br)
      then Inr (to_hex (take 32 (drop (br_offset br) (br_data br))),
                br\<lparr>br_offset := br_offset br + 32\<rparr>)
      else Inl TruncatedInput)"

section \<open>The block header\<close>

text \<open>
  The object's state. \<open>version\<close>, \<open>ts\<close>, \<open>bits\<close> and \<open>nonce\<close> hold numbers: every
  assignment in the file stores a literal, a value that passed \<^verbatim>\<open>util.isNumber\<close>, or
  the result of \<^verbatim>\<open>readU32\<close>. \<open>prevBlock\<close> and \<open>merkleRoot\<close> hold strings.
  \<open>u_hash\<close>, \<open>u_hhash\<close>, \<open>u_size\<close> and \<open>u_witness\<close> are the fields \<^verbatim>\<open>_hash\<close>,
  \<^verbatim>\<open>_hhash\<close>, \<^verbatim>\<open>_size\<close> and \<^verbatim>\<open>_witness\<close>; \<^verbatim>\<open>null\<close> is \<open>None\<close>.
  The transactions are of a type this file never looks into.
\<close>

record 'tx header =
  version :: rat
  prevBlock :: string
  merkleRoot :: string
  ts :: rat
  bits :: rat
  nonce :: rat
  txs :: "'tx list option"
  mutable :: bool
  u_hash :: "buffer option"
  u_hhash :: "string option"
  u_size :: int
  u_witness :: int

text \<open>The constructor \<^verbatim>\<open>AbstractBlock()\<close>.\<close>

definition AbstractBlock :: "'tx header" where
  "AbstractBlock =
     \<lparr>version = 1, prevBlock = NULL_HASH, merkleRoot = NULL_HASH, ts = 0, bits = 0,
      nonce = 0, txs = None, mutable = False, u_hash = None, u_hhash = None,
      u_size = - 1, u_witness = - 1\<rparr>"

text \<open>
  \<^verbatim>\<open>parseOptions\<close> and \<^verbatim>\<open>parseJSON\<close>: every assertion precedes every assignment,
  so a failure leaves the object \<open>h\<close> as it was.
\<close>

definition parseOptions :: "'tx header \<Rightarrow> jsvalue \<Rightarrow> (error \<times> 'tx header) + 'tx header" where
  "parseOptions h options =
     (if \<not> truthy options then Inl (InvalidData, h)
      else if \<not> isNumber (js_get options ''version'') then Inl (TypeMismatch, h)
      else if \<not> isString (js_get options ''prevBlock'') then Inl (TypeMismatch, h)
      else if \<not> isString (js_get options ''merkleRoot'') then Inl (TypeMismatch, h)
      else if \<not> isNumber (js_get options ''ts'') then Inl (TypeMismatch, h)
      else if \<not> isNumber (js_get options ''bits'') then Inl (TypeMismatch, h)
      else if \<not> isNumber (js_get options ''nonce'') then Inl (TypeMismatch, h)
      else
        let h1 = h\<lparr>version := num_of (js_get options ''version''),
                   prevBlock := str_of (js_get options ''prevBlock''),
                   merkleRoot := str_of (js_get options ''merkleRoot''),
                   ts := num_of (js_get options ''ts''),
                   bits := num_of (js_get options ''bits''),
                   nonce := num_of (js_get options ''nonce'')\<rparr>
        in if notNull (js_get options ''mutable'')
           then Inr (h1\<lparr>mutable := truthy (js_get options ''mutable'')\<rparr>)
           else Inr h1)"

definition parseJSON :: "'tx header \<Rightarrow> jsvalue \<Rightarrow> (error \<times> 'tx header) + 'tx header" where
  "parseJSON h json =
     (if \<not> truthy json then Inl (InvalidData, h)
      else if \<not> isNumber (js_get json ''version'') then Inl (TypeMismatch, h)
      else if \<not> isString (js_get json ''prevBlock'') then Inl (TypeMismatch, h)
      else if \<not> isString (js_get json ''merkleRoot'') then Inl (TypeMismatch, h)
      else if \<not> isNumber (js_get json ''ts'') then Inl (TypeMismatch, h)
      else if \<not> isNumber (js_get json ''bits'') then Inl (TypeMismatch, h)
      else if \<not> isNumber (js_get json ''nonce'') then Inl (TypeMismatch, h)
      else
        Inr (h\<lparr>version := num_of (js_get json ''version''),
               prevBlock := revHex (str_of (js_get json ''prevBlock'')),
               merkleRoot := revHex (str_of (js_get json ''merkleRoot'')),
               ts := num_of (js_get json ''ts''),
               bits := num_of (js_get json ''bits''),
               nonce := num_of (js_get json ''nonce'')\<rparr>))"

text \<open>
  \<^verbatim>\<open>_refresh(all)\<close> and \<^verbatim>\<open>refresh(all)\<close>. \<open>tx_refresh\<close> is the transaction's
  own \<^verbatim>\<open>refresh()\<close>, which the loop calls on every element of \<open>txs\<close>.
\<close>

definition u_refresh :: "('tx \<Rightarrow> 'tx) \<Rightarrow> 'tx header \<Rightarrow> bool \<Rightarrow> 'tx header" where
  "u_refresh tx_refresh h all =
     (let h1 = h\<lparr>u_hash := None, u_hhash := None, u_size := - 1, u_witness := - 1\<rparr>
      in if \<not> all then h1
         else case txs h1 of
                None \<Rightarrow> h1
              | Some l \<Rightarrow> h1\<lparr>txs := Some (map tx_refresh l)\<rparr>)"

definition refresh :: "('tx \<Rightarrow> 'tx) \<Rightarrow> 'tx header \<Rightarrow> bool \<Rightarrow> 'tx header" where
  "refresh tx_refresh h all = u_refresh tx_refresh h all"

definition writeAbbr :: "'tx header \<Rightarrow> StaticWriter \<Rightarrow> error + StaticWriter" where
  "writeAbbr h bw =
     (let bw1 = writeU32 bw (version h) in
      case writeHash bw1 (prevBlock h) of
        Inl e \<Rightarrow> Inl e
      | Inr bw2 \<Rightarrow>
          (case writeHash bw2 (merkleRoot h) of
             Inl e \<Rightarrow> Inl e
           | Inr bw3 \<Rightarrow>
               Inr (writeU32 (writeU32 (writeU32 bw3 (ts h)) (bits h)) (nonce h))))"

definition abbr :: "'tx header \<Rightarrow> error + buffer" where
  "abbr h = (case writeAbbr h (new_StaticWriter 80) of Inl e \<Rightarrow> Inl e | Inr bw \<Rightarrow> render bw)"

text \<open>
  \<^verbatim>\<open>parseAbbr(br)\<close> assigns each field as soon as it is read. When a read throws, the
  fields read before it are already assigned: the failure carries the object and the
  reader as they are left at that point.
\<close>

definition parseAbbr ::
  "'tx header \<Rightarrow> BufferReader \<Rightarrow>
   (error \<times> 'tx header \<times> BufferReader) + ('tx header \<times> BufferReader)" where
  "parseAbbr h br =
     (case readU32 br of
        Inl e \<Rightarrow> Inl (e, h, br)
      | Inr (v, br1) \<Rightarrow>
     (let h1 = h\<lparr>version := v\<rparr> in
      case readHash br1 of
        Inl e \<Rightarrow> Inl (e, h1, br1)
      | Inr (p, br2) \<Rightarrow>
     (let h2 = h1\<lparr>prevBlock := p\<rparr> in
      case readHash br2 of
        Inl e \<Rightarrow> Inl (e, h2, br2)
      | Inr (m, br3) \<Rightarrow>
     (let h3 = h2\<lparr>merkleRoot := m\<rparr> in
      case readU32 br3 of
        Inl e \<Rightarrow> Inl (e, h3, br3)
      | Inr (t, br4) \<Rightarrow>
     (let h4 = h3\<lparr>ts := t\<rparr> in
      case readU32 br4 of
        Inl e \<Rightarrow> Inl (e, h4, br4)
      | Inr (b, br5) \<Rightarrow>
     (let h5 = h4\<lparr>bits := b\<rparr> in
      case readU32 br5 of
        Inl e \<Rightarrow> Inl (e, h5, br5)
      | Inr (n, br6) \<Rightarrow> Inr (h5\<lparr>nonce := n\<rparr>, br6)))))))"

text \<open>
  \<^verbatim>\<open>hash(enc)\<close> returns a Buffer, or a string when \<^verbatim>\<open>enc === 'hex'\<close>.
  \<open>hash256\<close> is \<^verbatim>\<open>crypto.hash256\<close>, a parameter: lib/crypto is not among the
  sources and no property below depends on which digest it is.

  \<open>hash_buffer\<close> is the first block of the function (the raw hash, from \<^verbatim>\<open>_hash\<close> or
  computed), \<open>hash_hex\<close> the body of \<^verbatim>\<open>if (enc === 'hex')\<close>. A cached Buffer is
  always truthy; a cached string is falsy when it is empty.
\<close>

datatype hashval = HBuffer buffer | HString string

definition hash_buffer :: "(buffer \<Rightarrow> buffer) \<Rightarrow> 'tx header \<Rightarrow> error + (buffer \<times> 'tx header)" where
  "hash_buffer hash256 h =
     (case u_hash h of
        Some b \<Rightarrow> Inr (b, h)
      | None \<Rightarrow>
          (case abbr h of
             Inl e \<Rightarrow> Inl e
           | Inr d \<Rightarrow>
               Inr (hash256 d, if \<not> mutable h then h\<lparr>u_hash := Some (hash256 d)\<rparr> else h)))"

definition hash_hex :: "buffer \<Rightarrow> 'tx header \<Rightarrow> string \<times> 'tx header" where
  "hash_hex b h =
     (let computed = (to_hex b, if \<not> mutable h then h\<lparr>u_hhash := Some (to_hex b)\<rparr> else h)
      in case u_hhash h of
           None \<Rightarrow> computed
         | Some hex \<Rightarrow> if hex = [] then computed else (hex, h))"

definition hash :: "(buffer \<Rightarrow> buffer) \<Rightarrow> 'tx header \<Rightarrow> jsvalue \<Rightarrow> error + (hashval \<times> 'tx header)" where
  "hash hash256 h enc =
     (case hash_buffer hash256 h of
        Inl e \<Rightarrow> Inl e
      | Inr (b, h1) \<Rightarrow>
          if enc = JStr ''hex''
          then (case hash_hex b h1 of (hex, h2) \<Rightarrow> Inr (HString hex, h2))
          else Inr (HBuffer b, h1))"

text \<open>
  \<^verbatim>\<open>powHash()\<close>. \<open>scrypt\<close> is lib/crypto/scrypt, a parameter taking password, salt,
  N, r, p and the output length.
\<close>

definition powHash ::
  "(buffer \<Rightarrow> buffer \<Rightarrow> nat \<Rightarrow> nat \<Rightarrow> nat \<Rightarrow> nat \<Rightarrow> buffer) \<Rightarrow> 'tx header \<Rightarrow> error + buffer" where
  "powHash scrypt h =
     (case abbr h of
        Inl e \<Rightarrow> Inl e
      | Inr data \<Rightarrow> Inr (scrypt data data 1024 1 1 32))"

text \<open>
  \<^verbatim>\<open>verifyPOW()\<close>; \<open>consensus_verifyPOW\<close> is \<^verbatim>\<open>consensus.verifyPOW\<close>, a
  parameter (lib/protocol/consensus.js is not among the sources).
\<close>

definition verifyPOW ::
  "(buffer \<Rightarrow> rat \<Rightarrow> bool) \<Rightarrow> (buffer \<Rightarrow> buffer \<Rightarrow> nat \<Rightarrow> nat \<Rightarrow> nat \<Rightarrow> nat \<Rightarrow> buffer) \<Rightarrow>
   'tx header \<Rightarrow> error + bool" where
  "verifyPOW consensus_verifyPOW scrypt h =
     (case powHash scrypt h of
        Inl e \<Rightarrow> Inl e
      | Inr ph \<Rightarrow> Inr (consensus_verifyPOW ph (bits h)))"

text \<open>
  \<^verbatim>\<open>verifyBody\<close> of the abstract class throws; a block variant overrides it. A body
  check is a function of the header and of a state \<open>'s\<close> of its own (whatever the
  variant reads or records), returning pass or fail, or throwing, with the new state.
\<close>

definition verifyBody :: "'tx header \<Rightarrow> 's \<Rightarrow> (error + bool) \<times> 's" where
  "verifyBody h s = (Inl NotImplemented, s)"

text \<open>\<^verbatim>\<open>verify()\<close>, with the variant's body check as \<open>body\<close>.\<close>

definition verify ::
  "(buffer \<Rightarrow> rat \<Rightarrow> bool) \<Rightarrow> (buffer \<Rightarrow> buffer \<Rightarrow> nat \<Rightarrow> nat \<Rightarrow> nat \<Rightarrow> nat \<Rightarrow> buffer) \<Rightarrow>
   ('tx header \<Rightarrow> 's \<Rightarrow> (error + bool) \<times> 's) \<Rightarrow> 'tx header \<Rightarrow> 's \<Rightarrow> (error + bool) \<times> 's" where
  "verify consensus_verifyPOW scrypt body h s =
     (case verifyPOW consensus_verifyPOW scrypt h of
        Inl e \<Rightarrow> (Inl e, s)
      | Inr pow \<Rightarrow>
          if \<not> pow then (Inr False, s)
          else (case body h s of
                  (Inl e, s') \<Rightarrow> (Inl e, s')
                | (Inr ok, s') \<Rightarrow> if \<not> ok then (Inr False, s') else (Inr True, s')))"

text \<open>
  \<^verbatim>\<open>rhash()\<close>. \<^verbatim>\<open>hash('hex')\<close> always returns a string; \<^verbatim>\<open>util.revHex\<close> applied
  to anything else would fail its type assertion.
\<close>

definition rhash :: "(buffer \<Rightarrow> buffer) \<Rightarrow> 'tx header \<Rightarrow> error + (string \<times> 'tx header)" where
  "rhash hash256 h =
     (case hash hash256 h (JStr ''hex'') of
        Inl e \<Rightarrow> Inl e
      | Inr (HString hex, h') \<Rightarrow> Inr (revHex hex, h')
      | Inr (HBuffer b, h') \<Rightarrow> Inl TypeMismatch)"

section \<open>Predicates of the specification\<close>

text \<open>
  The valid field values of the data model: an unsigned 32-bit integer, and a 32-byte
  hash as the 64 lowercase hex digits the reader produces.
\<close>

definition is_u32 :: "rat \<Rightarrow> bool" where
  "is_u32 q \<longleftrightarrow> 0 \<le> q \<and> q < 2 ^ 32 \<and> of_int \<lfloor>q\<rfloor> = q"

definition is_hash_hex :: "string \<Rightarrow> bool" where
  "is_hash_hex s \<longleftrightarrow> length s = 64 \<and> list_all (\<lambda>c. c \<in> set hex_digits) s"

definition valid_fields :: "'tx header \<Rightarrow> bool" where
  "valid_fields h \<longleftrightarrow>
     is_u32 (version h) \<and> is_hash_hex (prevBlock h) \<and> is_hash_hex (merkleRoot h) \<and>
     is_u32 (ts h) \<and> is_u32 (bits h) \<and> is_u32 (nonce h)"

text \<open>The six field assertions of \<^verbatim>\<open>parseOptions\<close> and \<^verbatim>\<open>parseJSON\<close> all pass.\<close>

definition options_ok :: "jsvalue \<Rightarrow> bool" where
  "options_ok options \<longleftrightarrow>
     isNumber (js_get options ''version'') \<and> isString (js_get options ''prevBlock'') \<and>
     isString (js_get options ''merkleRoot'') \<and> isNumber (js_get options ''ts'') \<and>
     isNumber (js_get options ''bits'') \<and> isNumber (js_get options ''nonce'')"

text \<open>
  An options or json object of the data model: the four numbers are unsigned 32-bit
  integers, the two hashes are strings.
\<close>

fun u32_value :: "jsvalue \<Rightarrow> bool" where
  "u32_value (JNum q) = is_u32 q"
| "u32_value v = False"

definition wellformed_options :: "jsvalue \<Rightarrow> bool" where
  "wellformed_options options \<longleftrightarrow>
     truthy options \<and>
     u32_value (js_get options ''version'') \<and> isString (js_get options ''prevBlock'') \<and>
     isString (js_get options ''merkleRoot'') \<and> u32_value (js_get options ''ts'') \<and>
     u32_value (js_get options ''bits'') \<and> u32_value (js_get options ''nonce'')"

text \<open>
  The object and the reader as the reads of \<open>parseAbbr\<close> that fit into the data leave
  them: the fields lie at offsets 0, 4, 36, 68, 72 and 76 from the reader's offset.
\<close>

definition after_reads :: "'tx header \<Rightarrow> BufferReader \<Rightarrow> 'tx header \<times> BufferReader" where
  "after_reads h br =
     (let d = br_data br; k = br_offset br; n = length d in
      (h\<lparr>version := if k + 4 \<le> n then of_nat (u32_of_le (take 4 (drop k d))) else version h,
         prevBlock := if k + 36 \<le> n then to_hex (take 32 (drop (k + 4) d)) else prevBlock h,
         merkleRoot := if k + 68 \<le> n then to_hex (take 32 (drop (k + 36) d)) else merkleRoot h,
         ts := if k + 72 \<le> n then of_nat (u32_of_le (take 4 (drop (k + 68) d))) else ts h,
         bits := if k + 76 \<le> n then of_nat (u32_of_le (take 4 (drop (k + 72) d))) else bits h\<rparr>,
       br\<lparr>br_offset :=
            if k + 76 \<le> n then k + 76 else if k + 72 \<le> n then k + 72
            else if k + 68 \<le> n then k + 68 else if k + 36 \<le> n then k + 36
            else if k + 4 \<le> n then k + 4 else k\<rparr>))"

text \<open>Two headers agree on the six consensus fields.\<close>

definition same_fields :: "'tx header \<Rightarrow> 'ty header \<Rightarrow> bool" where
  "same_fields h h' \<longleftrightarrow>
     version h' = version h \<and> prevBlock h' = prevBlock h \<and> merkleRoot h' = merkleRoot h \<and>
     ts h' = ts h \<and> bits h' = bits h \<and> nonce h' = nonce h"

text \<open>The four derived caches are as the constructor leaves them.\<close>

definition no_caches :: "'tx header \<Rightarrow> bool" where
  "no_caches h \<longleftrightarrow> u_hash h = None \<and> u_hhash h = None \<and> u_size h = - 1 \<and> u_witness h = - 1"

definition same_caches :: "'tx header \<Rightarrow> 'tx header \<Rightarrow> bool" where
  "same_caches h h' \<longleftrightarrow>
     u_hash h' = u_hash h \<and> u_hhash h' = u_hhash h \<and> u_size h' = u_size h \<and>
     u_witness h' = u_witness h"

text \<open>The hex cache, when set, is the hex rendering of the raw cache.\<close>

definition hex_cache_of_raw :: "'tx header \<Rightarrow> bool" where
  "hex_cache_of_raw h =
     (case u_hhash h of
        None \<Rightarrow> True
      | Some hex \<Rightarrow> (case u_hash h of None \<Rightarrow> False | Some b \<Rightarrow> hex = to_hex b))"

text \<open>Every cache that is set holds the value derived from the current fields.\<close>

definition caches_current :: "(buffer \<Rightarrow> buffer) \<Rightarrow> 'tx header \<Rightarrow> bool" where
  "caches_current hash256 h =
     (case abbr h of
        Inl e \<Rightarrow> u_hash h = None \<and> u_hhash h = None
      | Inr d \<Rightarrow>
          (case u_hash h of None \<Rightarrow> True | Some b \<Rightarrow> b = hash256 d) \<and>
          (case u_hhash h of None \<Rightarrow> True | Some hex \<Rightarrow> hex = to_hex (hash256 d)))"

text \<open>
  The header states a program can reach: from the constructor, by the operations of the
  file (also by a \<open>parseAbbr\<close> that throws half way), and by assignment to the public fields (a miner sets \<open>mutable\<close> and steps
  \<open>nonce\<close>; a block variant fills \<open>txs\<close>). Only the cache fields are never
  assigned from outside.
\<close>

inductive reachable :: "(buffer \<Rightarrow> buffer) \<Rightarrow> ('tx \<Rightarrow> 'tx) \<Rightarrow> 'tx header \<Rightarrow> bool"
  for hash256 :: "buffer \<Rightarrow> buffer" and tx_refresh :: "'tx \<Rightarrow> 'tx" where
  r_new: "reachable hash256 tx_refresh AbstractBlock"
| r_parseOptions:
    "reachable hash256 tx_refresh h \<Longrightarrow> parseOptions h options = Inr h' \<Longrightarrow>
     reachable hash256 tx_refresh h'"
| r_parseJSON:
    "reachable hash256 tx_refresh h \<Longrightarrow> parseJSON h json = Inr h' \<Longrightarrow>
     reachable hash256 tx_refresh h'"
| r_parseAbbr:
    "reachable hash256 tx_refresh h \<Longrightarrow> parseAbbr h br = Inr (h', br') \<Longrightarrow>
     reachable hash256 tx_refresh h'"
| r_parseAbbr_throw:
    "reachable hash256 tx_refresh h \<Longrightarrow> parseAbbr h br = Inl (e, h', br') \<Longrightarrow>
     reachable hash256 tx_refresh h'"
| r_refresh:
    "reachable hash256 tx_refresh h \<Longrightarrow> reachable hash256 tx_refresh (refresh tx_refresh h all)"
| r_hash:
    "reachable hash256 tx_refresh h \<Longrightarrow> hash hash256 h enc = Inr (v, h') \<Longrightarrow>
     reachable hash256 tx_refresh h'"
| r_assign:
    "reachable hash256 tx_refresh h \<Longrightarrow>
     reachable hash256 tx_refresh
       (h\<lparr>version := v, prevBlock := p, merkleRoot := m, ts := t, bits := b, nonce := n,
          txs := l, mutable := f\<rparr>)"

text \<open>What \<open>hash\<close> returns for a header whose encoding is \<open>d\<close>: the digest, or its hex rendering.\<close>

definition expected_hash :: "(buffer \<Rightarrow> buffer) \<Rightarrow> jsvalue \<Rightarrow> buffer \<Rightarrow> hashval" where
  "expected_hash hash256 enc d =
     (if enc = JStr ''hex'' then HString (to_hex (hash256 d)) else HBuffer (hash256 d))"

section \<open>Sample inputs\<close>

text \<open>
  Concrete headers, options objects and stand-ins for the digest functions, used to
  instantiate the theorems below at closed terms. No theorem about the code depends on
  what the stand-ins compute.
\<close>

definition genesis_like :: "unit header" where
  "genesis_like = AbstractBlock\<lparr>ts := 1231006505, bits := 486604799, nonce := 2083236893\<rparr>"

definition sample_hash256 :: "buffer \<Rightarrow> buffer" where
  "sample_hash256 d = take 32 d"

definition sample_scrypt :: "buffer \<Rightarrow> buffer \<Rightarrow> nat \<Rightarrow> nat \<Rightarrow> nat \<Rightarrow> nat \<Rightarrow> buffer" where
  "sample_scrypt passwd salt N r p len = take len (rev passwd @ salt)"

definition sample_options :: "rat \<Rightarrow> jsvalue \<Rightarrow> jsvalue" where
  "sample_options v m =
     JObj [(''version'', JNum v), (''prevBlock'', JStr NULL_HASH),
           (''merkleRoot'', JStr NULL_HASH), (''ts'', JNum 0), (''bits'', JNum 0),
           (''nonce'', JNum 0), (''mutable'', m)]"

text \<open>A body check that passes and counts its calls.\<close>

definition counting_body :: "unit header \<Rightarrow> nat \<Rightarrow> (error + bool) \<times> nat" where
  "counting_body h n = (Inr True, Suc n)"

text \<open>Stand-ins for \<^verbatim>\<open>consensus.verifyPOW\<close>: one rejects every hash, one accepts.\<close>

definition reject_pow :: "buffer \<Rightarrow> rat \<Rightarrow> bool" where
  "reject_pow ph b = False"

definition accept_pow :: "buffer \<Rightarrow> rat \<Rightarrow> bool" where
  "accept_pow ph b = True"

text \<open>An options object with no \<open>merkleRoot\<close> property.\<close>

definition no_merkleRoot :: jsvalue where
  "no_merkleRoot =
     JObj [(''version'', JNum 1), (''prevBlock'', JStr NULL_HASH), (''ts'', JNum 0),
           (''bits'', JNum 0), (''nonce'', JNum 0)]"

text \<open>
  The encoding of a header with version \<open>v\<close> and the constructor's other fields; the
  stand-in digest of the constructor's header; that header after its first \<open>hash()\<close>.
\<close>

definition header_bytes :: "rat \<Rightarrow> buffer" where
  "header_bytes v =
     le32 (toUint32 v) @ replicate 32 0 @ replicate 32 0 @
     le32 (toUint32 0) @ le32 (toUint32 0) @ le32 (toUint32 0)"

text \<open>A 32-byte hash that is not its own reversal, and a json object that carries it.\<close>

definition sample_hash_bytes :: buffer where
  "sample_hash_bytes = 1 # replicate 31 0"

definition sample_json :: jsvalue where
  "sample_json =
     JObj [(''version'', JNum 1), (''prevBlock'', JStr (to_hex sample_hash_bytes)),
           (''merkleRoot'', JStr (to_hex sample_hash_bytes)), (''ts'', JNum 0),
           (''bits'', JNum 0), (''nonce'', JNum 0)]"

definition default_digest :: buffer where
  "default_digest = sample_hash256 (header_bytes 1)"

definition cached_default :: "unit header" where
  "cached_default = AbstractBlock\<lparr>u_hash := Some default_digest\<rparr>"

section \<open>The codec round trip\<close>

lemma unat_byte_lt: "unat (b :: byte) < 256"
  using unsigned_less[of b] by simp

lemma unat_byte_div: "unat (b :: byte) div 16 < 16"
  using unat_byte_lt[of b] by simp

lemma le_sum:
  assumes "n < 2 ^ 32"
  shows "n mod 256 + 256 * (n div 256 mod 256) + 65536 * (n div 65536 mod 256) +
     16777216 * (n div 16777216 mod 256) = (n::nat)"
proof -
  define a where "a = n div 256"
  define b where "b = a div 256"
  define c where "c = b div 256"
  have n: "n = n mod 256 + 256 * a" by (simp add: a_def)
  have a: "a = a mod 256 + 256 * b" by (simp add: b_def)
  have b: "b = b mod 256 + 256 * c" by (simp add: c_def)
  have b': "n div 65536 = b" by (simp add: a_def b_def div_mult2_eq[symmetric])
  have c': "n div 16777216 = c" by (simp add: a_def b_def c_def div_mult2_eq[symmetric])
  have "c < 256" using assms unfolding c'[symmetric] by simp
  then have c: "c mod 256 = c" by simp
  show ?thesis
    unfolding b' c' c a_def[symmetric] using n a b by linarith
qed

lemma digit_val_hex_digits: "map digit_val hex_digits = map Some [0..<16]"
  by (simp add: digit_val_def hex_digits_def upt_rec)

lemma digit_val_hex_digit: "n < 16 \<Longrightarrow> digit_val (hex_digit n) = Some n"
proof -
  assume n: "n < 16"
  have l: "length hex_digits = 16" by (simp add: hex_digits_def)
  have "map digit_val hex_digits ! n = map Some [0..<16] ! n"
    by (simp only: digit_val_hex_digits)
  then show ?thesis
    using n l by (simp add: hex_digit_def)
qed

lemma from_hex_to_hex: "from_hex (to_hex bs) = Some bs"
  by (induction bs) (simp_all add: digit_val_hex_digit unat_byte_div)

lemma length_to_hex: "length (to_hex bs) = 2 * length bs"
  by (induction bs) simp_all

lemma from_hex_length: "from_hex s = Some bs \<Longrightarrow> length s = 2 * length bs"
  by (induction s arbitrary: bs rule: from_hex.induct) (auto split: option.splits)

lemma hex_digit_digit_val:
  "c \<in> set hex_digits \<Longrightarrow> \<exists>n<16. digit_val c = Some n \<and> hex_digit n = c"
  by (auto simp: digit_val_def hex_digit_def hex_digits_def)

lemma unat_nibbles:
  "x < 16 \<Longrightarrow> y < 16 \<Longrightarrow> unat (of_nat (16 * x + y) :: byte) = 16 * x + y"
  unfolding unat_of_nat by simp

lemma to_hex_from_hex:
  "\<forall>c\<in>set s. c \<in> set hex_digits \<Longrightarrow> even (length s) \<Longrightarrow>
   \<exists>bs. from_hex s = Some bs \<and> to_hex bs = s"
proof (induction s rule: from_hex.induct)
  case 1
  then show ?case by simp
next
  case (2 c)
  then show ?case by simp
next
  case (3 c d cs)
  from 3(2) obtain x where x: "x < 16" "digit_val c = Some x" "hex_digit x = c"
    using hex_digit_digit_val[of c] by auto
  from 3(2) obtain y where y: "y < 16" "digit_val d = Some y" "hex_digit y = d"
    using hex_digit_digit_val[of d] by auto
  have "\<forall>c\<in>set cs. c \<in> set hex_digits" "even (length cs)"
    using 3(2,3) by simp_all
  with 3(1)[OF x(2) y(2)] obtain bs where bs: "from_hex cs = Some bs" "to_hex bs = cs"
    by auto
  have u: "unat (of_nat (16 * x + y) :: byte) = 16 * x + y"
    using x(1) y(1) by (rule unat_nibbles)
  have "to_hex ((of_nat (16 * x + y) :: byte) # bs) = c # d # cs"
    unfolding to_hex.simps u using x y bs by simp
  moreover have "from_hex (c # d # cs) = Some ((of_nat (16 * x + y) :: byte) # bs)"
    unfolding from_hex.simps x(2) y(2) bs(1) by (simp only: option.case)
  ultimately show ?case by blast
qed

lemma u32_of_le_le32: "n < 2 ^ 32 \<Longrightarrow> u32_of_le (le32 n) = n"
  using le_sum[of n] unfolding le32_def u32_of_le.simps unat_of_nat by simp

lemma byte_of_nat_add: "(of_nat (unat b + 256 * k) :: byte) = b"
  unfolding of_nat_eq by (rule exI[of _ k]) simp

lemma div_256_add: "x < 256 \<Longrightarrow> (x + 256 * k) div 256 = (k::nat)"
  by simp

lemma le32_u32_of_le: "le32 (u32_of_le [b0, b1, b2, b3]) = [b0, b1, b2, b3]"
proof -
  define N where "N = unat b0 + 256 * (unat b1 + 256 * (unat b2 + 256 * unat b3))"
  have u: "u32_of_le [b0, b1, b2, b3] = N" by (simp add: N_def)
  have d1: "N div 256 = unat b1 + 256 * (unat b2 + 256 * unat b3)"
    unfolding N_def by (rule div_256_add) (rule unat_byte_lt)
  have d2: "N div 65536 = unat b2 + 256 * unat b3"
  proof -
    have "N div 65536 = (N div 256) div 256" by (simp add: div_mult2_eq[symmetric])
    also have "\<dots> = unat b2 + 256 * unat b3"
      unfolding d1 by (rule div_256_add) (rule unat_byte_lt)
    finally show ?thesis .
  qed
  have d3: "N div 16777216 = unat b3 + 256 * 0"
  proof -
    have "N div 16777216 = (N div 65536) div 256" by (simp add: div_mult2_eq[symmetric])
    also have "\<dots> = unat b3"
      unfolding d2 using div_256_add[OF unat_byte_lt, of b2 "unat b3"] by simp
    finally show ?thesis by simp
  qed
  have "le32 N = [b0, b1, b2, b3]"
    apply (simp only: le32_def d1 d2 d3)
    apply (simp only: N_def byte_of_nat_add)
    done
  then show ?thesis unfolding u .
qed

lemma le32_u32_of_le_list: "length bs = 4 \<Longrightarrow> le32 (u32_of_le bs) = bs"
proof -
  assume "length bs = 4"
  then obtain b0 b1 b2 b3 where "bs = [b0, b1, b2, b3]"
    by (cases bs; cases "tl bs"; cases "tl (tl bs)"; cases "tl (tl (tl bs))") auto
  then show ?thesis by (simp only: le32_u32_of_le)
qed

lemma u32_of_le_lt: "u32_of_le bs < 2 ^ 32"
proof (cases "length bs = 4")
  case True
  then obtain b0 b1 b2 b3 where bs: "bs = [b0, b1, b2, b3]"
    by (cases bs; cases "tl bs"; cases "tl (tl bs)"; cases "tl (tl (tl bs))") auto
  show ?thesis
    unfolding bs using unat_byte_lt[of b0] unat_byte_lt[of b1] unat_byte_lt[of b2] unat_byte_lt[of b3]
    by simp
next
  case False
  then have "u32_of_le bs = 0"
    by (cases bs rule: u32_of_le.cases) auto
  then show ?thesis by simp
qed

lemma toUint32_u32:
  assumes "is_u32 q"
  shows "toUint32 q < 2 ^ 32" and "of_nat (toUint32 q) = q"
proof -
  from assms have q: "0 \<le> q" "q < 2 ^ 32" "of_int \<lfloor>q\<rfloor> = q"
    by (simp_all add: is_u32_def)
  have f0: "0 \<le> \<lfloor>q\<rfloor>" using q(1) by simp
  have "\<lfloor>q\<rfloor> < 2 ^ 32" using q(2) by (simp add: floor_less_iff)
  with f0 have m: "\<lfloor>q\<rfloor> mod 2 ^ 32 = \<lfloor>q\<rfloor>" by simp
  have t: "toUint32 q = nat \<lfloor>q\<rfloor>"
    using q(1) m by (simp add: toUint32_def)
  show "toUint32 q < 2 ^ 32"
    unfolding t using \<open>\<lfloor>q\<rfloor> < 2 ^ 32\<close> f0 by (simp add: nat_less_iff)
  have "(of_nat (nat \<lfloor>q\<rfloor>) :: rat) = of_int \<lfloor>q\<rfloor>"
    using f0 by simp
  then show "of_nat (toUint32 q) = q"
    unfolding t using q(3) by simp
qed

lemma read_le32: "is_u32 q \<Longrightarrow> of_nat (u32_of_le (le32 (toUint32 q))) = q"
  by (simp only: u32_of_le_le32[OF toUint32_u32(1)] toUint32_u32(2))

lemma length_le32: "length (le32 n) = 4"
  by (simp add: le32_def)

lemma hash_hex_bytes:
  assumes "is_hash_hex s"
  shows "\<exists>bs. from_hex s = Some bs \<and> to_hex bs = s \<and> length bs = 32"
proof -
  from assms have l: "length s = 64" and a: "\<forall>c\<in>set s. c \<in> set hex_digits"
    by (simp_all add: is_hash_hex_def list_all_iff)
  from to_hex_from_hex[OF a] l obtain bs where bs: "from_hex s = Some bs" "to_hex bs = s"
    by auto
  from from_hex_length[OF bs(1)] l have "length bs = 32" by simp
  with bs show ?thesis by blast
qed

lemma writeAbbr_bytes:
  assumes "from_hex (prevBlock h) = Some p" "length (prevBlock h) = 64"
    and "from_hex (merkleRoot h) = Some m" "length (merkleRoot h) = 64"
  shows "writeAbbr h bw =
    Inr (bw\<lparr>sw_data := sw_data bw @ le32 (toUint32 (version h)) @ p @ m @
           le32 (toUint32 (ts h)) @ le32 (toUint32 (bits h)) @ le32 (toUint32 (nonce h))\<rparr>)"
  using assms by (simp add: writeAbbr_def writeU32_def writeHash_def)

lemma abbr_bytes:
  assumes "from_hex (prevBlock h) = Some p" "length (prevBlock h) = 64"
    and "from_hex (merkleRoot h) = Some m" "length (merkleRoot h) = 64"
  shows "abbr h =
    Inr (le32 (toUint32 (version h)) @ p @ m @
           le32 (toUint32 (ts h)) @ le32 (toUint32 (bits h)) @ le32 (toUint32 (nonce h)))"
proof -
  have "length p = 32" "length m = 32"
    using assms from_hex_length[of "prevBlock h" p] from_hex_length[of "merkleRoot h" m]
    by simp_all
  then show ?thesis
    unfolding abbr_def writeAbbr_bytes[OF assms]
    by (simp add: render_def new_StaticWriter_def length_le32)
qed

lemma parseAbbr_eq:
  "parseAbbr h br =
    (if br_offset br + 80 \<le> length (br_data br)
     then Inr (h\<lparr>version := of_nat (u32_of_le (take 4 (drop (br_offset br) (br_data br)))),
                prevBlock := to_hex (take 32 (drop (br_offset br + 4) (br_data br))),
                merkleRoot := to_hex (take 32 (drop (br_offset br + 36) (br_data br))),
                ts := of_nat (u32_of_le (take 4 (drop (br_offset br + 68) (br_data br)))),
                bits := of_nat (u32_of_le (take 4 (drop (br_offset br + 72) (br_data br)))),
                nonce := of_nat (u32_of_le (take 4 (drop (br_offset br + 76) (br_data br))))\<rparr>,
               br\<lparr>br_offset := br_offset br + 80\<rparr>)
     else Inl (TruncatedInput, after_reads h br))"
  by (simp add: parseAbbr_def readU32_def readHash_def after_reads_def Let_def add.assoc)

lemma is_hash_hex_NULL_HASH: "is_hash_hex NULL_HASH"
  by (simp add: is_hash_hex_def NULL_HASH_def hex_digits_def list_all_iff)

lemma valid_genesis_like: "valid_fields genesis_like"
  by (simp add: valid_fields_def genesis_like_def AbstractBlock_def is_hash_hex_NULL_HASH is_u32_def)

lemma to_hex_zeros: "to_hex (replicate n 0) = replicate (2 * n) CHR ''0''"
  by (induction n) (simp_all add: hex_digit_def hex_digits_def)

lemma from_hex_NULL_HASH: "from_hex NULL_HASH = Some (replicate 32 0)"
  using from_hex_to_hex[of "replicate 32 0"] by (simp add: to_hex_zeros NULL_HASH_def)

lemma abbr_layout:
  assumes "valid_fields h"
  shows "\<exists>bs. abbr h = Inr bs \<and> length bs = 80
     \<and> of_nat (u32_of_le (take 4 bs)) = version h
     \<and> to_hex (take 32 (drop 4 bs)) = prevBlock h
     \<and> to_hex (take 32 (drop 36 bs)) = merkleRoot h
     \<and> of_nat (u32_of_le (take 4 (drop 68 bs))) = ts h
     \<and> of_nat (u32_of_le (take 4 (drop 72 bs))) = bits h
     \<and> of_nat (u32_of_le (take 4 (drop 76 bs))) = nonce h"
proof -
  from assms have v: "is_u32 (version h)" "is_u32 (ts h)" "is_u32 (bits h)" "is_u32 (nonce h)"
    and hp: "is_hash_hex (prevBlock h)" and hm: "is_hash_hex (merkleRoot h)"
    by (simp_all add: valid_fields_def)
  from hash_hex_bytes[OF hp] obtain p where
    p: "from_hex (prevBlock h) = Some p" "to_hex p = prevBlock h" "length p = 32"
    by blast
  from hash_hex_bytes[OF hm] obtain m where
    m: "from_hex (merkleRoot h) = Some m" "to_hex m = merkleRoot h" "length m = 32"
    by blast
  have lp: "length (prevBlock h) = 64" and lm: "length (merkleRoot h) = 64"
    using hp hm by (simp_all add: is_hash_hex_def)
  define bs where "bs = le32 (toUint32 (version h)) @ p @ m @
           le32 (toUint32 (ts h)) @ le32 (toUint32 (bits h)) @ le32 (toUint32 (nonce h))"
  have a: "abbr h = Inr bs"
    unfolding bs_def by (rule abbr_bytes[OF p(1) lp m(1) lm])
  have len: "length bs = 80"
    by (simp add: bs_def length_le32 p(3) m(3))
  have f1: "take 4 bs = le32 (toUint32 (version h))"
    by (simp add: bs_def length_le32)
  have f2: "take 32 (drop 4 bs) = p"
    by (simp add: bs_def length_le32 p(3))
  have f3: "take 32 (drop 36 bs) = m"
    by (simp add: bs_def length_le32 p(3) m(3))
  have f4: "take 4 (drop 68 bs) = le32 (toUint32 (ts h))"
    by (simp add: bs_def length_le32 p(3) m(3))
  have f5: "take 4 (drop 72 bs) = le32 (toUint32 (bits h))"
    by (simp add: bs_def length_le32 p(3) m(3))
  have f6: "take 4 (drop 76 bs) = le32 (toUint32 (nonce h))"
    by (simp add: bs_def length_le32 p(3) m(3))
  have g1: "of_nat (u32_of_le (take 4 bs)) = version h"
    unfolding f1 by (rule read_le32[OF v(1)])
  have g2: "to_hex (take 32 (drop 4 bs)) = prevBlock h"
    unfolding f2 by (rule p(2))
  have g3: "to_hex (take 32 (drop 36 bs)) = merkleRoot h"
    unfolding f3 by (rule m(2))
  have g4: "of_nat (u32_of_le (take 4 (drop 68 bs))) = ts h"
    unfolding f4 by (rule read_le32[OF v(2)])
  have g5: "of_nat (u32_of_le (take 4 (drop 72 bs))) = bits h"
    unfolding f5 by (rule read_le32[OF v(3)])
  have g6: "of_nat (u32_of_le (take 4 (drop 76 bs))) = nonce h"
    unfolding f6 by (rule read_le32[OF v(4)])
  from a len g1 g2 g3 g4 g5 g6 show ?thesis by blast
qed

lemma abbr_inj:
  assumes "valid_fields h" and "valid_fields h'" and "abbr h = abbr h'"
  shows "same_fields h h'"
proof -
  from abbr_layout[OF assms(1)] obtain bs where bs: "abbr h = Inr bs"
    "of_nat (u32_of_le (take 4 bs)) = version h"
    "to_hex (take 32 (drop 4 bs)) = prevBlock h"
    "to_hex (take 32 (drop 36 bs)) = merkleRoot h"
    "of_nat (u32_of_le (take 4 (drop 68 bs))) = ts h"
    "of_nat (u32_of_le (take 4 (drop 72 bs))) = bits h"
    "of_nat (u32_of_le (take 4 (drop 76 bs))) = nonce h"
    by blast
  from abbr_layout[OF assms(2)] obtain bs' where bs': "abbr h' = Inr bs'"
    "of_nat (u32_of_le (take 4 bs')) = version h'"
    "to_hex (take 32 (drop 4 bs')) = prevBlock h'"
    "to_hex (take 32 (drop 36 bs')) = merkleRoot h'"
    "of_nat (u32_of_le (take 4 (drop 68 bs'))) = ts h'"
    "of_nat (u32_of_le (take 4 (drop 72 bs'))) = bits h'"
    "of_nat (u32_of_le (take 4 (drop 76 bs'))) = nonce h'"
    by blast
  from assms(3) bs(1) bs'(1) have "bs' = bs" by simp
  with bs(2-) bs'(2-) show ?thesis by (simp add: same_fields_def)
qed

section \<open>Encoding, proof of work and construction\<close>

lemma abbr_length: "abbr h = Inr d \<Longrightarrow> length d = 80"
  by (auto simp: abbr_def render_def new_StaticWriter_def writeAbbr_def writeHash_def
      writeU32_def Let_def split: sum.splits if_splits option.splits)

lemma abbr_same_fields: "same_fields h h' \<Longrightarrow> abbr h' = abbr h"
  by (simp add: same_fields_def abbr_def writeAbbr_def split: sum.splits)

lemma abbr_valid: "valid_fields h \<Longrightarrow> \<exists>bs. abbr h = Inr bs"
proof -
  assume "valid_fields h"
  then have hp: "is_hash_hex (prevBlock h)" and hm: "is_hash_hex (merkleRoot h)"
    by (simp_all add: valid_fields_def)
  from hash_hex_bytes[OF hp] hash_hex_bytes[OF hm] hp hm show ?thesis
    by (auto simp: is_hash_hex_def dest: abbr_bytes)
qed

lemma verifyPOW_valid:
  "valid_fields h \<Longrightarrow> \<exists>d. abbr h = Inr d \<and> verifyPOW cv scrypt h = Inr (cv (scrypt d d 1024 1 1 32) (bits h))"
  by (drule abbr_valid) (auto simp: verifyPOW_def powHash_def)

lemma parseOptions_cases:
  "parseOptions h options =
     (if \<not> truthy options then Inl (InvalidData, h)
      else if \<not> options_ok options then Inl (TypeMismatch, h)
      else Inr (h\<lparr>version := num_of (js_get options ''version''),
                 prevBlock := str_of (js_get options ''prevBlock''),
                 merkleRoot := str_of (js_get options ''merkleRoot''),
                 ts := num_of (js_get options ''ts''),
                 bits := num_of (js_get options ''bits''),
                 nonce := num_of (js_get options ''nonce''),
                 mutable := (if notNull (js_get options ''mutable'')
                             then truthy (js_get options ''mutable'') else mutable h)\<rparr>))"
  by (simp add: parseOptions_def options_ok_def Let_def)

lemma parseJSON_cases:
  "parseJSON h json =
     (if \<not> truthy json then Inl (InvalidData, h)
      else if \<not> options_ok json then Inl (TypeMismatch, h)
      else Inr (h\<lparr>version := num_of (js_get json ''version''),
                 prevBlock := revHex (str_of (js_get json ''prevBlock'')),
                 merkleRoot := revHex (str_of (js_get json ''merkleRoot'')),
                 ts := num_of (js_get json ''ts''),
                 bits := num_of (js_get json ''bits''),
                 nonce := num_of (js_get json ''nonce'')\<rparr>))"
  by (simp add: parseJSON_def options_ok_def)

lemma js_get_no_merkleRoot: "js_get no_merkleRoot ''merkleRoot'' = JUndefined"
  by (simp add: no_merkleRoot_def)

lemma options_ok_sample: "options_ok (sample_options v m)"
  by (simp add: options_ok_def sample_options_def)

lemma truthy_sample: "truthy (sample_options v m)"
  by (simp add: sample_options_def)

lemma js_get_mutable_sample: "js_get (sample_options v m) ''mutable'' = m"
  by (simp add: sample_options_def)

section \<open>Hashing and the caches\<close>

lemma hash_raw_cases:
  "enc \<noteq> JStr ''hex'' \<Longrightarrow>
   hash H h enc =
     (case u_hash h of
        Some b \<Rightarrow> Inr (HBuffer b, h)
      | None \<Rightarrow>
          (case abbr h of
             Inl e \<Rightarrow> Inl e
           | Inr d \<Rightarrow> Inr (HBuffer (H d), if mutable h then h else h\<lparr>u_hash := Some (H d)\<rparr>)))"
  by (simp add: hash_def hash_buffer_def split: option.splits sum.splits)

lemma hash_hex_cases:
  "hex_cache_of_raw h \<Longrightarrow>
   hash H h (JStr ''hex'') =
     (case u_hash h of
        Some b \<Rightarrow>
          Inr (HString (to_hex b),
               if mutable h \<or> u_hhash h = Some (to_hex b) then h
               else h\<lparr>u_hhash := Some (to_hex b)\<rparr>)
      | None \<Rightarrow>
          (case abbr h of
             Inl e \<Rightarrow> Inl e
           | Inr d \<Rightarrow>
               Inr (HString (to_hex (H d)),
                    if mutable h then h
                    else h\<lparr>u_hash := Some (H d), u_hhash := Some (to_hex (H d))\<rparr>)))"
  by (auto simp: hash_def hash_buffer_def hash_hex_def hex_cache_of_raw_def Let_def
      split: option.splits sum.splits)

lemma hex_cache_of_raw_hash:
  "hex_cache_of_raw h \<Longrightarrow> hash H h enc = Inr (v, h') \<Longrightarrow> hex_cache_of_raw h'"
  by (cases "enc = JStr ''hex''")
     (auto simp: hash_raw_cases hash_hex_cases hex_cache_of_raw_def
      split: option.splits sum.splits if_splits)

lemma hash_keeps_fields:
  "hash H h enc = Inr (v, h') \<Longrightarrow> same_fields h h' \<and> mutable h' = mutable h \<and> txs h' = txs h"
  by (auto simp: hash_def hash_buffer_def hash_hex_def same_fields_def Let_def
      split: option.splits sum.splits if_splits)

lemma parse_same_caches:
  "parseOptions h options = Inr h' \<Longrightarrow> same_caches h h'"
  "parseJSON h json = Inr h' \<Longrightarrow> same_caches h h'"
  "parseAbbr h br = Inr (h', br') \<Longrightarrow> same_caches h h'"
  by (auto simp: parseOptions_cases parseJSON_cases parseAbbr_eq same_caches_def
      split: if_splits)

lemma after_reads_frame:
  "same_caches h (fst (after_reads h br))"
  "mutable (fst (after_reads h br)) = mutable h"
  "txs (fst (after_reads h br)) = txs h"
  "nonce (fst (after_reads h br)) = nonce h"
  "br_data (snd (after_reads h br)) = br_data br"
  by (simp_all add: after_reads_def same_caches_def Let_def)

lemma after_reads_nothing:
  "length (br_data br) < br_offset br + 4 \<Longrightarrow> after_reads h br = (h, br)"
  by (simp add: after_reads_def Let_def)

lemma parseAbbr_throw:
  assumes "parseAbbr h br = Inl (e, h', br')"
  shows "e = TruncatedInput" and "(h', br') = after_reads h br"
    and "length (br_data br) < br_offset br + 80" and "same_caches h h'"
proof -
  from assms show 1: "e = TruncatedInput" and 2: "(h', br') = after_reads h br"
    and "length (br_data br) < br_offset br + 80"
    by (auto simp: parseAbbr_eq split: if_splits)
  from 2 have "h' = fst (after_reads h br)" by (metis fst_conv)
  then show "same_caches h h'" by (simp add: after_reads_frame)
qed

lemma wellformed_options_ok:
  "wellformed_options options \<Longrightarrow> truthy options \<and> options_ok options"
proof -
  have "\<And>v. u32_value v \<Longrightarrow> isNumber v" by (case_tac v) simp_all
  then show "wellformed_options options \<Longrightarrow> truthy options \<and> options_ok options"
    by (simp add: wellformed_options_def options_ok_def)
qed

lemma refresh_no_caches: "no_caches (refresh R h all)"
  by (simp add: refresh_def u_refresh_def no_caches_def Let_def split: option.splits)

lemma refresh_same_fields:
  "same_fields h (refresh R h all) \<and> mutable (refresh R h all) = mutable h"
  by (simp add: refresh_def u_refresh_def same_fields_def Let_def split: option.splits)

lemma same_caches_hex_cache:
  "same_caches h h' \<Longrightarrow> hex_cache_of_raw h \<Longrightarrow> hex_cache_of_raw h'"
  by (simp add: same_caches_def hex_cache_of_raw_def split: option.splits)

lemma no_caches_hex_cache: "no_caches h \<Longrightarrow> hex_cache_of_raw h"
  by (simp add: no_caches_def hex_cache_of_raw_def)

lemma no_caches_AbstractBlock: "no_caches AbstractBlock"
  by (simp add: no_caches_def AbstractBlock_def)

lemma reachable_hex_cache: "reachable H R h \<Longrightarrow> hex_cache_of_raw h"
proof (induction rule: reachable.induct)
  case r_new
  show ?case by (rule no_caches_hex_cache[OF no_caches_AbstractBlock])
next
  case (r_parseOptions h options h')
  then show ?case by (blast intro: same_caches_hex_cache parse_same_caches)
next
  case (r_parseJSON h json h')
  then show ?case by (blast intro: same_caches_hex_cache parse_same_caches)
next
  case (r_parseAbbr h br h' br')
  then show ?case by (blast intro: same_caches_hex_cache parse_same_caches)
next
  case (r_parseAbbr_throw h br e h' br')
  then show ?case by (blast intro: same_caches_hex_cache parseAbbr_throw)
next
  case (r_refresh h all)
  show ?case by (rule no_caches_hex_cache[OF refresh_no_caches])
next
  case (r_hash h enc v h')
  then show ?case by (blast intro: hex_cache_of_raw_hash)
next
  case (r_assign h v p m t b n l f)
  then show ?case by (simp add: hex_cache_of_raw_def split: option.splits)
qed

lemma hash_hex_of_raw:
  assumes "hex_cache_of_raw h" and "enc \<noteq> JStr ''hex''"
  shows "(\<forall>e. hash H h enc = Inl e \<longrightarrow> hash H h (JStr ''hex'') = Inl e)
     \<and> (\<forall>v h1. hash H h enc = Inr (v, h1) \<longrightarrow>
          (\<exists>b h2. v = HBuffer b
             \<and> hash H h (JStr ''hex'') = Inr (HString (to_hex b), h2)
             \<and> hash H h1 enc = Inr (HBuffer b, h1)
             \<and> (\<exists>h3. hash H h1 (JStr ''hex'') = Inr (HString (to_hex b), h3))))"
proof (intro conjI allI impI)
  fix e assume "hash H h enc = Inl e"
  then show "hash H h (JStr ''hex'') = Inl e"
    using assms by (auto simp: hash_raw_cases hash_hex_cases split: option.splits sum.splits)
next
  fix v h1 assume r: "hash H h enc = Inr (v, h1)"
  have i1: "hex_cache_of_raw h1" by (rule hex_cache_of_raw_hash[OF assms(1) r])
  from r assms(2) obtain b where b: "v = HBuffer b" "u_hash h1 = Some b \<or> h1 = h"
    by (auto simp: hash_raw_cases split: option.splits sum.splits if_splits)
  from r assms obtain h2 where h2: "hash H h (JStr ''hex'') = Inr (HString (to_hex b), h2)"
    using b(1) by (auto simp: hash_raw_cases hash_hex_cases split: option.splits sum.splits)
  from r assms(2) b(1) have again: "hash H h1 enc = Inr (HBuffer b, h1)"
    by (auto simp: hash_raw_cases split: option.splits sum.splits if_splits)
  from again i1 assms(2) obtain h3 where "hash H h1 (JStr ''hex'') = Inr (HString (to_hex b), h3)"
    by (auto simp: hash_raw_cases hash_hex_cases split: option.splits sum.splits)
  with b(1) h2 again
  show "\<exists>b h2. v = HBuffer b
             \<and> hash H h (JStr ''hex'') = Inr (HString (to_hex b), h2)
             \<and> hash H h1 enc = Inr (HBuffer b, h1)
             \<and> (\<exists>h3. hash H h1 (JStr ''hex'') = Inr (HString (to_hex b), h3))"
    by blast
qed

lemma reachable_genesis_like: "reachable H id genesis_like"
proof -
  have "reachable H id ((AbstractBlock :: unit header)\<lparr>version := 1, prevBlock := NULL_HASH,
      merkleRoot := NULL_HASH, ts := 1231006505, bits := 486604799, nonce := 2083236893,
      txs := None, mutable := False\<rparr>)"
    by (rule r_assign[OF r_new])
  then show ?thesis by (simp add: genesis_like_def AbstractBlock_def)
qed

lemma hash_raw_no_cache:
  "valid_fields h \<Longrightarrow> u_hash h = None \<Longrightarrow> enc \<noteq> JStr ''hex'' \<Longrightarrow>
   \<exists>d. abbr h = Inr d \<and>
     hash H h enc = Inr (HBuffer (H d), if mutable h then h else h\<lparr>u_hash := Some (H d)\<rparr>)"
  by (drule abbr_valid) (auto simp: hash_raw_cases)

lemma to_hex_append: "to_hex (xs @ ys) = to_hex xs @ to_hex ys"
  by (induction xs) simp_all

lemma revHex_loop_to_hex: "revHex_loop (to_hex bs) out = to_hex (rev bs) @ out"
  by (induction bs arbitrary: out) (simp_all add: to_hex_append)

lemma revHex_to_hex: "revHex (to_hex bs) = to_hex (rev bs)"
  by (simp add: revHex_def revHex_loop_to_hex)

lemma toUint32_of_nat: "n < 2 ^ 32 \<Longrightarrow> toUint32 (of_nat n) = n"
  by (simp add: toUint32_def)

lemma le32_read: "length bs = 4 \<Longrightarrow> le32 (toUint32 (of_nat (u32_of_le bs))) = bs"
  by (simp only: toUint32_of_nat[OF u32_of_le_lt] le32_u32_of_le_list)

lemma take80_split:
  "take 80 e = take 4 e @ take 32 (drop 4 e) @ take 32 (drop 36 e) @ take 4 (drop 68 e) @
     take 4 (drop 72 e) @ take 4 (drop 76 e)"
proof -
  have 1: "take 80 e = take 4 e @ take 76 (drop 4 e)"
    using take_add[of 4 76 e] by simp
  have 2: "take 76 (drop 4 e) = take 32 (drop 4 e) @ take 44 (drop 36 e)"
    using take_add[of 32 44 "drop 4 e"] by simp
  have 3: "take 44 (drop 36 e) = take 32 (drop 36 e) @ take 12 (drop 68 e)"
    using take_add[of 32 12 "drop 36 e"] by simp
  have 4: "take 12 (drop 68 e) = take 4 (drop 68 e) @ take 8 (drop 72 e)"
    using take_add[of 4 8 "drop 68 e"] by simp
  have 5: "take 8 (drop 72 e) = take 4 (drop 72 e) @ take 4 (drop 76 e)"
    using take_add[of 4 4 "drop 72 e"] by simp
  show ?thesis by (simp only: 1 2 3 4 5)
qed

lemma abbr_parseAbbr:
  assumes "parseAbbr h0 br = Inr (h, br')"
  shows "abbr h = Inr (take 80 (drop (br_offset br) (br_data br)))"
proof -
  define e where "e = drop (br_offset br) (br_data br)"
  from assms have len: "br_offset br + 80 \<le> length (br_data br)"
    by (simp add: parseAbbr_eq split: if_splits)
  then have le: "80 \<le> length e" by (simp add: e_def)
  from assms len have f:
    "version h = of_nat (u32_of_le (take 4 e))"
    "prevBlock h = to_hex (take 32 (drop 4 e))"
    "merkleRoot h = to_hex (take 32 (drop 36 e))"
    "ts h = of_nat (u32_of_le (take 4 (drop 68 e)))"
    "bits h = of_nat (u32_of_le (take 4 (drop 72 e)))"
    "nonce h = of_nat (u32_of_le (take 4 (drop 76 e)))"
    by (auto simp: parseAbbr_eq e_def add.commute)
  have p: "from_hex (prevBlock h) = Some (take 32 (drop 4 e))" "length (prevBlock h) = 64"
    using le by (simp_all add: f from_hex_to_hex length_to_hex)
  have m: "from_hex (merkleRoot h) = Some (take 32 (drop 36 e))" "length (merkleRoot h) = 64"
    using le by (simp_all add: f from_hex_to_hex length_to_hex)
  have n: "le32 (toUint32 (version h)) = take 4 e"
    "le32 (toUint32 (ts h)) = take 4 (drop 68 e)"
    "le32 (toUint32 (bits h)) = take 4 (drop 72 e)"
    "le32 (toUint32 (nonce h)) = take 4 (drop 76 e)"
    unfolding f using le by (simp_all add: le32_read)
  show ?thesis
    unfolding abbr_bytes[OF p m] n e_def[symmetric] take80_split[of e] by (rule refl)
qed

lemma abbr_default_fields:
  assumes "prevBlock h = NULL_HASH" "merkleRoot h = NULL_HASH" "ts h = 0" "bits h = 0" "nonce h = 0"
  shows "abbr h = Inr (header_bytes (version h))"
proof -
  have "abbr h = Inr (le32 (toUint32 (version h)) @ replicate 32 0 @ replicate 32 0 @
           le32 (toUint32 (ts h)) @ le32 (toUint32 (bits h)) @ le32 (toUint32 (nonce h)))"
    by (rule abbr_bytes) (simp_all add: assms from_hex_NULL_HASH, simp_all add: NULL_HASH_def)
  then show ?thesis by (simp add: header_bytes_def assms)
qed

lemma hd_header_bytes: "is_u32 v \<Longrightarrow> hd (sample_hash256 (header_bytes v)) = of_nat (toUint32 v)"
  by (simp add: sample_hash256_def header_bytes_def le32_def)

lemma digest_differs: "sample_hash256 (header_bytes 2) \<noteq> default_digest"
proof
  assume "sample_hash256 (header_bytes 2) = default_digest"
  then have "hd (sample_hash256 (header_bytes 2)) = hd (sample_hash256 (header_bytes 1))"
    by (simp add: default_digest_def)
  then show False
    by (simp add: hd_header_bytes is_u32_def toUint32_def)
qed

lemma hash_default:
  "hash sample_hash256 (AbstractBlock :: unit header) JNull = Inr (HBuffer default_digest, cached_default)"
proof -
  have "abbr (AbstractBlock :: unit header) = Inr (header_bytes 1)"
    using abbr_default_fields[of "AbstractBlock :: unit header"] by (simp add: AbstractBlock_def)
  then show ?thesis
    by (simp add: hash_raw_cases default_digest_def cached_default_def, simp add: AbstractBlock_def)
qed

lemma parseOptions_sample:
  "parseOptions h (sample_options v m) =
     Inr (h\<lparr>version := v, prevBlock := NULL_HASH, merkleRoot := NULL_HASH, ts := 0, bits := 0,
            nonce := 0, mutable := (if notNull m then truthy m else mutable h)\<rparr>)"
  by (simp add: parseOptions_cases options_ok_sample truthy_sample js_get_mutable_sample)
     (simp add: sample_options_def)

lemma parseOptions_cached_default:
  "parseOptions cached_default (sample_options 2 JUndefined) = Inr (cached_default\<lparr>version := 2\<rparr>)"
  "parseOptions cached_default (sample_options 2 (JBool True))
     = Inr (cached_default\<lparr>version := 2, mutable := True\<rparr>)"
  by (simp_all add: parseOptions_sample) (simp_all add: cached_default_def AbstractBlock_def)

lemma abbr_cached_v2:
  "abbr (cached_default\<lparr>version := 2\<rparr>) = Inr (header_bytes 2)"
  "abbr (cached_default\<lparr>version := 2, mutable := True\<rparr>) = Inr (header_bytes 2)"
  using abbr_default_fields[of "cached_default\<lparr>version := 2\<rparr>"]
    abbr_default_fields[of "cached_default\<lparr>version := 2, mutable := True\<rparr>"]
  by (simp_all add: cached_default_def AbstractBlock_def)

lemma same_caches_no_caches: "same_caches h h' \<Longrightarrow> no_caches h \<Longrightarrow> no_caches h'"
  by (simp add: same_caches_def no_caches_def)

lemma hash_no_caches:
  assumes "u_hash h = None" "u_hhash h = None"
  shows "case abbr h of
           Inl e \<Rightarrow> hash H h enc = Inl e
         | Inr d \<Rightarrow>
             hash H h enc =
               Inr (expected_hash H enc d,
                    if mutable h then h
                    else if enc = JStr ''hex''
                         then h\<lparr>u_hash := Some (H d), u_hhash := Some (to_hex (H d))\<rparr>
                         else h\<lparr>u_hash := Some (H d)\<rparr>)"
  using assms
  by (cases "enc = JStr ''hex''")
     (auto simp: hash_raw_cases hash_hex_cases hex_cache_of_raw_def expected_hash_def
      split: sum.splits)

lemma hash_mutable_state: "mutable h \<Longrightarrow> hash H h enc = Inr (v, h') \<Longrightarrow> h' = h"
  by (auto simp: hash_def hash_buffer_def hash_hex_def Let_def
      split: option.splits sum.splits if_splits)

lemma abbr_cache_upd:
  "abbr (h\<lparr>u_hash := x\<rparr>) = abbr h" "abbr (h\<lparr>u_hhash := y\<rparr>) = abbr h"
  by (rule abbr_same_fields, simp add: same_fields_def)+

lemma hash_buffer_current:
  assumes "caches_current H h" and "hash_buffer H h = Inr (b, h1)"
  shows "\<exists>d. abbr h = Inr d \<and> b = H d \<and> caches_current H h1 \<and> u_hash h1 = (if mutable h then u_hash h else Some b)
    \<and> hash_buffer H h1 = Inr (b, h1) \<and> u_hhash h1 = u_hhash h \<and> mutable h1 = mutable h \<and> abbr h1 = abbr h"
  using assms
  by (cases "abbr h"; cases "u_hash h"; cases "mutable h")
     (auto simp: caches_current_def hash_buffer_def abbr_cache_upd)

lemma hash_hex_current:
  assumes "caches_current H h1" and "abbr h1 = Inr d" and "u_hash h1 = Some (H d) \<or> mutable h1"
  shows "hash_hex (H d) h1 = (to_hex (H d), h2) \<Longrightarrow>
    caches_current H h2 \<and> hash_hex (H d) h2 = (to_hex (H d), h2) \<and> u_hash h2 = u_hash h1 \<and> abbr h2 = abbr h1 \<and> mutable h2 = mutable h1"
    and "fst (hash_hex (H d) h1) = to_hex (H d)"
  using assms
  by (cases "u_hhash h1"; cases "mutable h1"; auto simp: caches_current_def hash_hex_def abbr_cache_upd Let_def split: if_splits)+

lemma hash_buffer_cong:
  assumes "hash_buffer H h1 = Inr (b, h1)"
    and "u_hash h2 = u_hash h1" "abbr h2 = abbr h1" "mutable h2 = mutable h1"
  shows "hash_buffer H h2 = Inr (b, h2)"
proof (cases "u_hash h1")
  case (Some c)
  with assms show ?thesis by (simp add: hash_buffer_def)
next
  case None
  with assms(1) obtain d where d: "abbr h1 = Inr d" "b = H d"
    and st: "(if \<not> mutable h1 then h1\<lparr>u_hash := Some (H d)\<rparr> else h1) = h1"
    by (auto simp: hash_buffer_def split: sum.splits)
  have "mutable h1"
  proof (rule ccontr)
    assume "\<not> mutable h1"
    with st have "u_hash (h1\<lparr>u_hash := Some (H d)\<rparr>) = u_hash h1" by simp
    with None show False by simp
  qed
  with None d assms(2-4) show ?thesis by (simp add: hash_buffer_def)
qed

lemma hash_caches_current:
  assumes "caches_current H h" and "hash H h enc = Inr (v, h')"
  shows "caches_current H h' \<and> (\<exists>d. abbr h = Inr d \<and> v = expected_hash H enc d)
     \<and> hash H h' enc = Inr (v, h')"
proof -
  from assms(2) obtain b h1 where hb: "hash_buffer H h = Inr (b, h1)"
    by (auto simp: hash_def split: sum.splits)
  from hash_buffer_current[OF assms(1) hb] obtain d where d: "abbr h = Inr d" "b = H d"
    and c1: "caches_current H h1"
    and u1: "u_hash h1 = (if mutable h then u_hash h else Some b)"
    and b1: "hash_buffer H h1 = Inr (b, h1)"
    and m1: "mutable h1 = mutable h" and a1: "abbr h1 = abbr h"
    by blast
  show ?thesis
  proof (cases "enc = JStr ''hex''")
    case False
    with assms(2) hb have "v = HBuffer b" "h' = h1" by (auto simp: hash_def)
    with d c1 b1 False show ?thesis by (simp add: expected_hash_def hash_def)
  next
    case True
    obtain hex h2 where hh: "hash_hex b h1 = (hex, h2)" by (cases "hash_hex b h1")
    with assms(2) hb True have v: "v = HString hex" "h' = h2" by (auto simp: hash_def)
    have ad: "abbr h1 = Inr d" using a1 d(1) by simp
    have um: "u_hash h1 = Some (H d) \<or> mutable h1" using u1 m1 d(2) by auto
    have hex: "hex = to_hex (H d)"
      using hash_hex_current(2)[OF c1 ad um] hh d(2) by simp
    with hh d(2) have "hash_hex (H d) h1 = (to_hex (H d), h2)" by simp
    from hash_hex_current(1)[OF c1 ad um this]
    have c2: "caches_current H h2" and i2: "hash_hex (H d) h2 = (to_hex (H d), h2)"
      and e2: "u_hash h2 = u_hash h1" "abbr h2 = abbr h1" "mutable h2 = mutable h1"
      by simp_all
    have b2: "hash_buffer H h2 = Inr (b, h2)" by (rule hash_buffer_cong[OF b1 e2])
    have "hash H h2 enc = Inr (HString (to_hex (H d)), h2)"
      using b2 i2 d(2) True by (simp add: hash_def)
    with c2 d(1) v hex True show ?thesis by (simp add: expected_hash_def)
  qed
qed

lemma caches_current_no_caches: "u_hash h = None \<Longrightarrow> u_hhash h = None \<Longrightarrow> caches_current H h"
  by (simp add: caches_current_def split: sum.splits)

lemma valid_AbstractBlock_version:
  "is_u32 v \<Longrightarrow> valid_fields ((AbstractBlock :: unit header)\<lparr>version := v\<rparr>)"
  by (simp add: valid_fields_def AbstractBlock_def is_hash_hex_NULL_HASH) (simp add: is_u32_def)

lemma to_hex_inj:
  assumes "to_hex a = to_hex b"
  shows "a = b"
proof -
  have "from_hex (to_hex a) = from_hex (to_hex b)" by (simp only: assms)
  then show ?thesis by (simp only: from_hex_to_hex option.inject)
qed

lemma sample_hash_bytes_not_palindrome: "rev sample_hash_bytes \<noteq> sample_hash_bytes"
proof
  assume "rev sample_hash_bytes = sample_hash_bytes"
  then have "hd (rev sample_hash_bytes) = hd sample_hash_bytes" by simp
  then show False by (simp add: sample_hash_bytes_def)
qed

lemma wellformed_sample_json: "wellformed_options sample_json"
  by (simp add: wellformed_options_def sample_json_def is_u32_def)

lemma js_get_sample_json:
  "js_get sample_json ''prevBlock'' = JStr (to_hex sample_hash_bytes)"
  "js_get sample_json ''merkleRoot'' = JStr (to_hex sample_hash_bytes)"
  by (simp_all add: sample_json_def)

lemma length_header_bytes: "length (header_bytes v) = 80"
  by (simp add: header_bytes_def length_le32)

lemma default_digest_not_palindrome: "rev default_digest \<noteq> default_digest"
proof
  assume a: "rev default_digest = default_digest"
  have t: "default_digest = le32 (toUint32 1) @ replicate 28 0"
    by (simp add: default_digest_def sample_hash256_def header_bytes_def length_le32)
  have "hd default_digest = 1"
    unfolding t by (simp add: le32_def toUint32_def)
  moreover have "last default_digest = 0"
    unfolding t by simp
  moreover have "hd (rev default_digest) = last default_digest"
    unfolding t by (simp add: hd_rev)
  ultimately show False using a by simp
qed

lemma is_u32_of_nat: "n < 2 ^ 32 \<Longrightarrow> is_u32 (of_nat n)"
  by (simp add: is_u32_def)

lemma parseAbbr_version_u32:
  "parseAbbr h br = Inr (h', br') \<Longrightarrow>
   is_u32 (version h') \<and> is_u32 (ts h') \<and> is_u32 (bits h') \<and> is_u32 (nonce h')"
  by (auto simp: parseAbbr_eq is_u32_of_nat[OF u32_of_le_lt] split: if_splits)

section \<open>Claims\<close>

text \<open>
  C1. For every header whose numeric fields are unsigned 32-bit integers and whose hash
  fields are 64 lowercase hex digits, \<open>abbr\<close> succeeds with exactly 80 bytes: bytes 0-3
  are the little-endian version, bytes 4-35 and 36-67 the bytes of prevBlock and
  merkleRoot, bytes 68-71, 72-75 and 76-79 the little-endian ts, bits and nonce; and
  \<open>parseAbbr\<close> on a reader over those bytes consumes all 80 and sets the six fields of
  the header it is called on to those of the encoded header.
\<close>

theorem abbr_parseAbbr_roundtrip:
  assumes "valid_fields h"
  shows "\<exists>bs. abbr h = Inr bs \<and> length bs = 80
     \<and> of_nat (u32_of_le (take 4 bs)) = version h
     \<and> to_hex (take 32 (drop 4 bs)) = prevBlock h
     \<and> to_hex (take 32 (drop 36 bs)) = merkleRoot h
     \<and> of_nat (u32_of_le (take 4 (drop 68 bs))) = ts h
     \<and> of_nat (u32_of_le (take 4 (drop 72 bs))) = bits h
     \<and> of_nat (u32_of_le (take 4 (drop 76 bs))) = nonce h
     \<and> parseAbbr h0 (new_BufferReader bs) =
         Inr (h0\<lparr>version := version h, prevBlock := prevBlock h,
                  merkleRoot := merkleRoot h, ts := ts h, bits := bits h,
                  nonce := nonce h\<rparr>,
              \<lparr>br_data = bs, br_offset = 80\<rparr>)"
proof -
  from abbr_layout[OF assms] obtain bs where a: "abbr h = Inr bs" and len: "length bs = 80"
    and g1: "of_nat (u32_of_le (take 4 bs)) = version h"
    and g2: "to_hex (take 32 (drop 4 bs)) = prevBlock h"
    and g3: "to_hex (take 32 (drop 36 bs)) = merkleRoot h"
    and g4: "of_nat (u32_of_le (take 4 (drop 68 bs))) = ts h"
    and g5: "of_nat (u32_of_le (take 4 (drop 72 bs))) = bits h"
    and g6: "of_nat (u32_of_le (take 4 (drop 76 bs))) = nonce h"
    by blast
  have r: "parseAbbr h0 (new_BufferReader bs) =
         Inr (h0\<lparr>version := version h, prevBlock := prevBlock h,
                  merkleRoot := merkleRoot h, ts := ts h, bits := bits h,
                  nonce := nonce h\<rparr>,
              \<lparr>br_data = bs, br_offset = 80\<rparr>)"
    unfolding parseAbbr_eq using len g1 g2 g3 g4 g5 g6
    by (simp add: new_BufferReader_def)
  from a len g1 g2 g3 g4 g5 g6 r show ?thesis by blast
qed

theorem abbr_parseAbbr_roundtrip_witness:
  "valid_fields genesis_like \<and>
   (\<exists>bs. abbr genesis_like = Inr bs \<and> length bs = 80 \<and>
      parseAbbr (AbstractBlock :: unit header) (new_BufferReader bs) =
        Inr (genesis_like, \<lparr>br_data = bs, br_offset = 80\<rparr>))"
proof -
  have e: "(AbstractBlock :: unit header)\<lparr>version := version genesis_like,
      prevBlock := prevBlock genesis_like, merkleRoot := merkleRoot genesis_like,
      ts := ts genesis_like, bits := bits genesis_like, nonce := nonce genesis_like\<rparr>
      = genesis_like"
    by (simp add: genesis_like_def AbstractBlock_def)
  from abbr_parseAbbr_roundtrip[OF valid_genesis_like, of "AbstractBlock :: unit header"]
  show ?thesis unfolding e using valid_genesis_like by blast
qed

text \<open>
  C2. On every reachable header, \<open>hash('hex')\<close> is the lowercase hex rendering of
  what \<open>hash()\<close> returns (and fails where it fails); a second \<open>hash()\<close> on the
  state the first one left returns the same bytes and changes nothing, and \<open>hash('hex')\<close>
  there is again their hex rendering. The hex cache, when set, is the rendering of the
  raw cache: it is only ever written from the raw hash at hand.
\<close>

theorem hash_hex_is_hex_of_raw:
  assumes "reachable H R h" and "enc \<noteq> JStr ''hex''"
  shows "hex_cache_of_raw h
     \<and> (\<forall>e. hash H h enc = Inl e \<longrightarrow> hash H h (JStr ''hex'') = Inl e)
     \<and> (\<forall>v h1. hash H h enc = Inr (v, h1) \<longrightarrow>
          (\<exists>b h2. v = HBuffer b
             \<and> hash H h (JStr ''hex'') = Inr (HString (to_hex b), h2)
             \<and> hash H h1 enc = Inr (HBuffer b, h1)
             \<and> (\<exists>h3. hash H h1 (JStr ''hex'') = Inr (HString (to_hex b), h3))))"
proof -
  have i: "hex_cache_of_raw h" by (rule reachable_hex_cache[OF assms(1)])
  from hash_hex_of_raw[OF i assms(2)] i show ?thesis by blast
qed

theorem hash_hex_is_hex_of_raw_witness:
  "reachable sample_hash256 id genesis_like \<and> JNull \<noteq> JStr ''hex''
   \<and> (\<exists>b h1 h2.
        hash sample_hash256 genesis_like JNull = Inr (HBuffer b, h1)
        \<and> hash sample_hash256 genesis_like (JStr ''hex'') = Inr (HString (to_hex b), h2)
        \<and> hash sample_hash256 h1 JNull = Inr (HBuffer b, h1))"
proof -
  have r: "reachable sample_hash256 id genesis_like" by (rule reachable_genesis_like)
  have n: "JNull \<noteq> JStr ''hex''" by simp
  have "u_hash genesis_like = None" by (simp add: genesis_like_def AbstractBlock_def)
  from hash_raw_no_cache[OF valid_genesis_like this n, of sample_hash256]
  obtain v h1 where 1: "hash sample_hash256 genesis_like JNull = Inr (v, h1)"
    by blast
  from hash_hex_is_hex_of_raw[OF r n] 1 r n show ?thesis by blast
qed

text \<open>
  C3. \<open>powHash\<close> is scrypt applied to the canonical encoding as both password and salt,
  with N = 1024, r = 1, p = 1 and output length 32; the encoding, when there is one, has
  80 bytes, and where the encoding fails \<open>powHash\<close> fails with the same error. Two
  headers that agree on the six consensus fields have the same \<open>powHash\<close>, whatever
  their \<open>mutable\<close> flags, transactions and caches.
\<close>

theorem powHash_scrypt_of_abbr:
  "(case abbr h of
      Inl e \<Rightarrow> powHash scrypt h = Inl e
    | Inr d \<Rightarrow> length d = 80 \<and> powHash scrypt h = Inr (scrypt d d 1024 1 1 32))
   \<and> (same_fields h h' \<longrightarrow> powHash scrypt h' = powHash scrypt h)"
proof (intro conjI impI)
  show "case abbr h of
      Inl e \<Rightarrow> powHash scrypt h = Inl e
    | Inr d \<Rightarrow> length d = 80 \<and> powHash scrypt h = Inr (scrypt d d 1024 1 1 32)"
    by (auto simp: powHash_def abbr_length split: sum.splits)
next
  assume "same_fields h h'"
  then have "abbr h' = abbr h" by (rule abbr_same_fields)
  then show "powHash scrypt h' = powHash scrypt h"
    by (simp add: powHash_def)
qed

theorem powHash_scrypt_of_abbr_witness:
  "same_fields genesis_like (genesis_like\<lparr>mutable := True, u_hash := Some [7]\<rparr>)
   \<and> powHash sample_scrypt (genesis_like\<lparr>mutable := True, u_hash := Some [7]\<rparr>)
       = powHash sample_scrypt genesis_like
   \<and> (\<exists>d. abbr genesis_like = Inr d \<and> length d = 80
        \<and> powHash sample_scrypt genesis_like = Inr (sample_scrypt d d 1024 1 1 32))"
proof -
  let ?h' = "genesis_like\<lparr>mutable := True, u_hash := Some [7]\<rparr>"
  have s: "same_fields genesis_like ?h'"
    by (simp add: same_fields_def)
  from abbr_valid[OF valid_genesis_like] obtain d where d: "abbr genesis_like = Inr d"
    by blast
  from powHash_scrypt_of_abbr[where h = genesis_like and scrypt = sample_scrypt and h' = ?h'] s d
  show ?thesis by simp
qed

text \<open>
  C4. \<open>verify\<close> returns true exactly when \<open>verifyPOW\<close> and the body check both return
  true. \<open>verifyPOW\<close> is evaluated first: when it returns false, \<open>verify\<close> returns false
  and the state the body check works on is untouched, for every body check (so the body
  check was not run); when it throws, \<open>verify\<close> throws the same error, again without
  running the body check; when it returns true, the body check runs and its state is the
  final state. With the abstract class's own \<open>verifyBody\<close>, which throws, \<open>verify\<close>
  on a header that passes the proof of work throws NotImplemented.
\<close>

theorem verify_pow_then_body:
  "(fst (verify cv scrypt body h s) = Inr True \<longleftrightarrow>
      verifyPOW cv scrypt h = Inr True \<and> fst (body h s) = Inr True)
   \<and> (verifyPOW cv scrypt h = Inr False \<longrightarrow> verify cv scrypt body h s = (Inr False, s))
   \<and> (\<forall>e. verifyPOW cv scrypt h = Inl e \<longrightarrow> verify cv scrypt body h s = (Inl e, s))
   \<and> (verifyPOW cv scrypt h = Inr True \<longrightarrow> snd (verify cv scrypt body h s) = snd (body h s))
   \<and> (verifyPOW cv scrypt h = Inr True \<longrightarrow>
        verify cv scrypt verifyBody h s = (Inl NotImplemented, s))"
  by (cases "body h s"; cases "fst (body h s)")
     (auto simp: verify_def verifyBody_def split: sum.splits)

theorem verify_pow_then_body_witness:
  "verifyPOW reject_pow sample_scrypt genesis_like = Inr False
   \<and> verify reject_pow sample_scrypt counting_body genesis_like 0 = (Inr False, 0)
   \<and> verifyPOW accept_pow sample_scrypt genesis_like = Inr True
   \<and> verify accept_pow sample_scrypt counting_body genesis_like 0 = (Inr True, 1)"
proof -
  from verifyPOW_valid[OF valid_genesis_like, of reject_pow sample_scrypt]
  have r: "verifyPOW reject_pow sample_scrypt genesis_like = Inr False"
    by (auto simp: reject_pow_def)
  from verifyPOW_valid[OF valid_genesis_like, of accept_pow sample_scrypt]
  have a: "verifyPOW accept_pow sample_scrypt genesis_like = Inr True"
    by (auto simp: accept_pow_def)
  have c: "counting_body genesis_like 0 = (Inr True, 1)"
    by (simp add: counting_body_def)
  from verify_pow_then_body[of reject_pow sample_scrypt counting_body genesis_like 0] r
  have 1: "verify reject_pow sample_scrypt counting_body genesis_like 0 = (Inr False, 0)"
    by simp
  from verify_pow_then_body[of accept_pow sample_scrypt counting_body genesis_like 0] a c
  have 2: "verify accept_pow sample_scrypt counting_body genesis_like 0 = (Inr True, 1)"
    by (simp add: prod_eq_iff)
  from r a 1 2 show ?thesis by simp
qed

text \<open>
  C5, as stated, fails: \<open>parseOptions\<close> changes consensus fields of an existing header
  and leaves its caches alone. The constructor's header is hashed, which caches the
  digest; \<open>parseOptions\<close> with version 2 keeps that cache, and the next \<open>hash()\<close>
  returns it, though the digest of the current encoding is another.
\<close>

theorem parseOptions_keeps_stale_hash:
  "hash sample_hash256 (AbstractBlock :: unit header) JNull
     = Inr (HBuffer default_digest, cached_default)
   \<and> parseOptions cached_default (sample_options 2 JUndefined)
       = Inr (cached_default\<lparr>version := 2\<rparr>)
   \<and> version cached_default = 1
   \<and> u_hash (cached_default\<lparr>version := 2\<rparr>) = Some default_digest
   \<and> hash sample_hash256 (cached_default\<lparr>version := 2\<rparr>) JNull
       = Inr (HBuffer default_digest, cached_default\<lparr>version := 2\<rparr>)
   \<and> abbr (cached_default\<lparr>version := 2\<rparr>) = Inr (header_bytes 2)
   \<and> sample_hash256 (header_bytes 2) \<noteq> default_digest"
proof -
  have 1: "version cached_default = 1"
    by (simp add: cached_default_def AbstractBlock_def)
  have 2: "u_hash (cached_default\<lparr>version := 2\<rparr>) = Some default_digest"
    by (simp add: cached_default_def)
  have 3: "hash sample_hash256 (cached_default\<lparr>version := 2\<rparr>) JNull
       = Inr (HBuffer default_digest, cached_default\<lparr>version := 2\<rparr>)"
    by (simp add: hash_raw_cases 2)
  from hash_default parseOptions_cached_default(1) 1 2 3 abbr_cached_v2(1) digest_differs
  show ?thesis by simp
qed

text \<open>
  C5, amended. \<open>parseOptions\<close>, \<open>parseJSON\<close> and \<open>parseAbbr\<close> succeed on well-formed
  input and then hold exactly the six consensus fields given (\<open>parseJSON\<close> with the two
  hash strings reversed, \<open>parseAbbr\<close> the values read at the six offsets); they leave the
  four caches exactly as they were, also when \<open>parseAbbr\<close> throws half way, so on a
  header without caches (as the constructor leaves it, or after \<open>refresh\<close>) the result
  has none. Only \<open>refresh\<close> clears the caches: all four, unconditionally, keeping the
  consensus fields. \<open>hash\<close> on a header with no hash caches returns the digest (or its
  hex) of the current encoding.
\<close>

theorem caches_cleared_only_by_refresh:
  "(parseOptions h options = Inr h1 \<longrightarrow>
       version h1 = num_of (js_get options ''version'') \<and>
       prevBlock h1 = str_of (js_get options ''prevBlock'') \<and>
       merkleRoot h1 = str_of (js_get options ''merkleRoot'') \<and>
       ts h1 = num_of (js_get options ''ts'') \<and>
       bits h1 = num_of (js_get options ''bits'') \<and>
       nonce h1 = num_of (js_get options ''nonce'') \<and>
       same_caches h h1 \<and> (no_caches h \<longrightarrow> no_caches h1))
   \<and> (wellformed_options options \<longrightarrow> (\<exists>h1. parseOptions h options = Inr h1))
   \<and> (parseJSON h json = Inr h2 \<longrightarrow>
       version h2 = num_of (js_get json ''version'') \<and>
       prevBlock h2 = revHex (str_of (js_get json ''prevBlock'')) \<and>
       merkleRoot h2 = revHex (str_of (js_get json ''merkleRoot'')) \<and>
       ts h2 = num_of (js_get json ''ts'') \<and>
       bits h2 = num_of (js_get json ''bits'') \<and>
       nonce h2 = num_of (js_get json ''nonce'') \<and>
       same_caches h h2 \<and> (no_caches h \<longrightarrow> no_caches h2))
   \<and> (wellformed_options json \<longrightarrow> (\<exists>h2. parseJSON h json = Inr h2))
   \<and> (parseAbbr h br = Inr (h3, br') \<longrightarrow>
       version h3 = of_nat (u32_of_le (take 4 (drop (br_offset br) (br_data br)))) \<and>
       prevBlock h3 = to_hex (take 32 (drop (br_offset br + 4) (br_data br))) \<and>
       merkleRoot h3 = to_hex (take 32 (drop (br_offset br + 36) (br_data br))) \<and>
       ts h3 = of_nat (u32_of_le (take 4 (drop (br_offset br + 68) (br_data br)))) \<and>
       bits h3 = of_nat (u32_of_le (take 4 (drop (br_offset br + 72) (br_data br)))) \<and>
       nonce h3 = of_nat (u32_of_le (take 4 (drop (br_offset br + 76) (br_data br)))) \<and>
       same_caches h h3 \<and> (no_caches h \<longrightarrow> no_caches h3))
   \<and> (br_offset br + 80 \<le> length (br_data br) \<longrightarrow> (\<exists>h3 br'. parseAbbr h br = Inr (h3, br')))
   \<and> (parseAbbr h br = Inl (e, h4, br'') \<longrightarrow> same_caches h h4)
   \<and> no_caches (refresh R h all) \<and> same_fields h (refresh R h all)
   \<and> (u_hash h = None \<and> u_hhash h = None \<longrightarrow>
        (case abbr h of
           Inl e \<Rightarrow> hash H h enc = Inl e
         | Inr d \<Rightarrow> (\<exists>h'. hash H h enc = Inr (expected_hash H enc d, h'))))"
proof -
  have po: "parseOptions h options = Inr h1 \<longrightarrow>
       version h1 = num_of (js_get options ''version'') \<and>
       prevBlock h1 = str_of (js_get options ''prevBlock'') \<and>
       merkleRoot h1 = str_of (js_get options ''merkleRoot'') \<and>
       ts h1 = num_of (js_get options ''ts'') \<and>
       bits h1 = num_of (js_get options ''bits'') \<and>
       nonce h1 = num_of (js_get options ''nonce'') \<and>
       same_caches h h1 \<and> (no_caches h \<longrightarrow> no_caches h1)"
    by (auto simp: parseOptions_cases same_caches_def no_caches_def split: if_splits)
  have pos: "wellformed_options options \<longrightarrow> (\<exists>h1. parseOptions h options = Inr h1)"
    by (auto simp: parseOptions_cases dest: wellformed_options_ok)
  have pj: "parseJSON h json = Inr h2 \<longrightarrow>
       version h2 = num_of (js_get json ''version'') \<and>
       prevBlock h2 = revHex (str_of (js_get json ''prevBlock'')) \<and>
       merkleRoot h2 = revHex (str_of (js_get json ''merkleRoot'')) \<and>
       ts h2 = num_of (js_get json ''ts'') \<and>
       bits h2 = num_of (js_get json ''bits'') \<and>
       nonce h2 = num_of (js_get json ''nonce'') \<and>
       same_caches h h2 \<and> (no_caches h \<longrightarrow> no_caches h2)"
    by (auto simp: parseJSON_cases same_caches_def no_caches_def split: if_splits)
  have pjs: "wellformed_options json \<longrightarrow> (\<exists>h2. parseJSON h json = Inr h2)"
    by (auto simp: parseJSON_cases dest: wellformed_options_ok)
  have pa: "parseAbbr h br = Inr (h3, br') \<longrightarrow>
       version h3 = of_nat (u32_of_le (take 4 (drop (br_offset br) (br_data br)))) \<and>
       prevBlock h3 = to_hex (take 32 (drop (br_offset br + 4) (br_data br))) \<and>
       merkleRoot h3 = to_hex (take 32 (drop (br_offset br + 36) (br_data br))) \<and>
       ts h3 = of_nat (u32_of_le (take 4 (drop (br_offset br + 68) (br_data br)))) \<and>
       bits h3 = of_nat (u32_of_le (take 4 (drop (br_offset br + 72) (br_data br)))) \<and>
       nonce h3 = of_nat (u32_of_le (take 4 (drop (br_offset br + 76) (br_data br)))) \<and>
       same_caches h h3 \<and> (no_caches h \<longrightarrow> no_caches h3)"
    by (auto simp: parseAbbr_eq same_caches_def no_caches_def split: if_splits)
  have pas: "br_offset br + 80 \<le> length (br_data br) \<longrightarrow>
      (\<exists>h3 br'. parseAbbr h br = Inr (h3, br'))"
    by (simp add: parseAbbr_eq)
  have pt: "parseAbbr h br = Inl (e, h4, br'') \<longrightarrow> same_caches h h4"
    by (blast dest: parseAbbr_throw)
  have r: "no_caches (refresh R h all)" "same_fields h (refresh R h all)"
    by (simp_all add: refresh_no_caches refresh_same_fields)
  have hh: "u_hash h = None \<and> u_hhash h = None \<longrightarrow>
        (case abbr h of
           Inl e \<Rightarrow> hash H h enc = Inl e
         | Inr d \<Rightarrow> (\<exists>h'. hash H h enc = Inr (expected_hash H enc d, h')))"
    using hash_no_caches[of h H enc] by (auto split: sum.splits)
  from po pos pj pjs pa pas pt r hh show ?thesis by (intro conjI)
qed

theorem caches_cleared_only_by_refresh_witness:
  "no_caches (AbstractBlock :: unit header)
   \<and> wellformed_options (sample_options 2 JUndefined)
   \<and> (\<exists>h1. parseOptions (AbstractBlock :: unit header) (sample_options 2 JUndefined) = Inr h1
         \<and> version h1 = 2 \<and> no_caches h1)
   \<and> (\<exists>h'. hash sample_hash256 ((AbstractBlock :: unit header)\<lparr>version := 2\<rparr>) JNull
            = Inr (HBuffer (sample_hash256 (header_bytes 2)), h'))
   \<and> no_caches (refresh id (cached_default\<lparr>version := 2\<rparr>) False)
   \<and> (\<exists>h'. hash sample_hash256 (refresh id (cached_default\<lparr>version := 2\<rparr>) False) JNull
            = Inr (HBuffer (sample_hash256 (header_bytes 2)), h'))"
proof -
  let ?a = "(AbstractBlock :: unit header)\<lparr>version := 2\<rparr>"
  let ?r = "refresh id (cached_default\<lparr>version := 2\<rparr>) False"
  let ?o = "sample_options 2 JUndefined"
  have w: "wellformed_options ?o"
    by (simp add: wellformed_options_def sample_options_def is_u32_def)
  from caches_cleared_only_by_refresh[where h = "AbstractBlock :: unit header" and options = ?o,
      THEN conjunct2, THEN conjunct1] w
  obtain h1 where p: "parseOptions (AbstractBlock :: unit header) ?o = Inr h1" by blast
  from caches_cleared_only_by_refresh[where h = "AbstractBlock :: unit header" and options = ?o
      and ?h1.0 = h1, THEN conjunct1] p no_caches_AbstractBlock
  have v: "version h1 = 2" and n1: "no_caches h1"
    by (auto simp: sample_options_def)
  have n: "no_caches ?a" using no_caches_AbstractBlock by (simp add: no_caches_def)
  have ea: "abbr ?a = Inr (header_bytes 2)"
    using abbr_default_fields[of ?a] by (simp add: AbstractBlock_def)
  note t2 = caches_cleared_only_by_refresh[where h = ?a and H = sample_hash256 and enc = JNull,
      THEN conjunct2, THEN conjunct2, THEN conjunct2, THEN conjunct2, THEN conjunct2,
      THEN conjunct2, THEN conjunct2, THEN conjunct2, THEN conjunct2]
  from t2 n ea obtain h' where 1: "hash sample_hash256 ?a JNull
      = Inr (HBuffer (sample_hash256 (header_bytes 2)), h')"
    by (auto simp: no_caches_def expected_hash_def)
  note t3 = caches_cleared_only_by_refresh[where h = "cached_default\<lparr>version := 2\<rparr>"
      and R = id and all = False, THEN conjunct2, THEN conjunct2, THEN conjunct2,
      THEN conjunct2, THEN conjunct2, THEN conjunct2, THEN conjunct2]
  from t3 have nr: "no_caches ?r" and sf: "same_fields (cached_default\<lparr>version := 2\<rparr>) ?r"
    by blast+
  have er: "abbr ?r = Inr (header_bytes 2)"
    using abbr_same_fields[OF sf] abbr_cached_v2(1) by simp
  note t4 = caches_cleared_only_by_refresh[where h = ?r and H = sample_hash256 and enc = JNull,
      THEN conjunct2, THEN conjunct2, THEN conjunct2, THEN conjunct2, THEN conjunct2,
      THEN conjunct2, THEN conjunct2, THEN conjunct2, THEN conjunct2]
  from t4 nr er obtain h'' where 2: "hash sample_hash256 ?r JNull
      = Inr (HBuffer (sample_hash256 (header_bytes 2)), h'')"
    by (auto simp: no_caches_def expected_hash_def)
  from no_caches_AbstractBlock w p v n1 1 nr 2 show ?thesis by blast
qed

text \<open>
  C6, as stated, fails twice. After \<open>hash()\<close> on the constructor's (immutable) header
  the raw cache is set and the hex cache is absent: neither both absent nor both set.
  And when that header is then given version 2 and \<open>mutable = true\<close> by
  \<open>parseOptions\<close>, \<open>hash()\<close> on the now mutable header returns the cached digest of
  the old fields instead of recomputing.
\<close>

theorem hash_cache_mixed_and_stale:
  "hash sample_hash256 (AbstractBlock :: unit header) JNull
     = Inr (HBuffer default_digest, cached_default)
   \<and> \<not> mutable cached_default
   \<and> u_hash cached_default = Some default_digest
   \<and> u_hhash cached_default = None
   \<and> parseOptions cached_default (sample_options 2 (JBool True))
       = Inr (cached_default\<lparr>version := 2, mutable := True\<rparr>)
   \<and> mutable (cached_default\<lparr>version := 2, mutable := True\<rparr>)
   \<and> hash sample_hash256 (cached_default\<lparr>version := 2, mutable := True\<rparr>) JNull
       = Inr (HBuffer default_digest, cached_default\<lparr>version := 2, mutable := True\<rparr>)
   \<and> abbr (cached_default\<lparr>version := 2, mutable := True\<rparr>) = Inr (header_bytes 2)
   \<and> sample_hash256 (header_bytes 2) \<noteq> default_digest"
proof -
  have 1: "\<not> mutable cached_default" "u_hash cached_default = Some default_digest"
    "u_hhash cached_default = None"
    by (simp_all add: cached_default_def AbstractBlock_def)
  have 2: "u_hash (cached_default\<lparr>version := 2, mutable := True\<rparr>) = Some default_digest"
    by (simp add: cached_default_def)
  have 3: "hash sample_hash256 (cached_default\<lparr>version := 2, mutable := True\<rparr>) JNull
       = Inr (HBuffer default_digest, cached_default\<lparr>version := 2, mutable := True\<rparr>)"
    by (simp add: hash_raw_cases 2)
  from hash_default parseOptions_cached_default(2) 1 3 abbr_cached_v2(2) digest_differs
  show ?thesis by simp
qed

text \<open>
  C6, amended. On a header with no hash caches \<open>hash\<close> computes the digest of the
  current encoding; when \<open>mutable\<close> is true it writes no cache (the state is unchanged,
  so every call recomputes), when false it fills the raw cache and, on a hex request, the
  hex cache too. \<open>hash\<close> never changes the state of a mutable header. A raw hash that
  is cached is returned as it is, whatever \<open>mutable\<close> says. When every cache that is
  set agrees with the current fields, \<open>hash\<close> returns the digest (or hex) of the
  current encoding, keeps that agreement, and a repeated call returns the same value and
  leaves the state alone. After \<open>refresh\<close>, \<open>hash\<close> returns the digest of the current
  fields whatever was cached before. Valid headers that differ in a consensus field have
  different encodings, so their hashes differ wherever the digest separates the two.
\<close>

theorem hash_caching_by_mutable:
  "(u_hash h = None \<and> u_hhash h = None \<longrightarrow>
      (case abbr h of
         Inl e \<Rightarrow> hash H h enc = Inl e
       | Inr d \<Rightarrow>
           hash H h enc =
             Inr (expected_hash H enc d,
                  if mutable h then h
                  else if enc = JStr ''hex''
                       then h\<lparr>u_hash := Some (H d), u_hhash := Some (to_hex (H d))\<rparr>
                       else h\<lparr>u_hash := Some (H d)\<rparr>)))
   \<and> (mutable h \<and> hash H h enc = Inr (v, h') \<longrightarrow> h' = h)
   \<and> (\<forall>b. u_hash h = Some b \<and> enc \<noteq> JStr ''hex'' \<longrightarrow> hash H h enc = Inr (HBuffer b, h))
   \<and> (caches_current H h \<and> hash H h enc = Inr (v, h') \<longrightarrow>
        caches_current H h' \<and> same_fields h h' \<and> mutable h' = mutable h \<and>
        (\<exists>d. abbr h = Inr d \<and> v = expected_hash H enc d) \<and>
        hash H h' enc = Inr (v, h'))
   \<and> (case abbr h of
         Inl e \<Rightarrow> hash H (refresh R h all) enc = Inl e
       | Inr d \<Rightarrow> (\<exists>h'. hash H (refresh R h all) enc = Inr (expected_hash H enc d, h')))
   \<and> (valid_fields h \<and> valid_fields g \<and> \<not> same_fields h g \<longrightarrow> abbr h \<noteq> abbr g)"
proof (intro conjI impI allI)
  assume "u_hash h = None \<and> u_hhash h = None"
  then show "case abbr h of
         Inl e \<Rightarrow> hash H h enc = Inl e
       | Inr d \<Rightarrow>
           hash H h enc =
             Inr (expected_hash H enc d,
                  if mutable h then h
                  else if enc = JStr ''hex''
                       then h\<lparr>u_hash := Some (H d), u_hhash := Some (to_hex (H d))\<rparr>
                       else h\<lparr>u_hash := Some (H d)\<rparr>)"
    using hash_no_caches[of h H enc] by blast
next
  assume "mutable h \<and> hash H h enc = Inr (v, h')"
  then show "h' = h" by (blast dest: hash_mutable_state)
next
  fix b assume "u_hash h = Some b \<and> enc \<noteq> JStr ''hex''"
  then show "hash H h enc = Inr (HBuffer b, h)" by (simp add: hash_raw_cases)
next
  assume a: "caches_current H h \<and> hash H h enc = Inr (v, h')"
  then have c: "caches_current H h" and r: "hash H h enc = Inr (v, h')" by simp_all
  from hash_caches_current[OF c r] hash_keeps_fields[OF r]
  show "caches_current H h'" and "same_fields h h'" and "mutable h' = mutable h"
    and "\<exists>d. abbr h = Inr d \<and> v = expected_hash H enc d" and "hash H h' enc = Inr (v, h')"
    by blast+
next
  have n: "u_hash (refresh R h all) = None" "u_hhash (refresh R h all) = None"
    using refresh_no_caches[of R h all] by (simp_all add: no_caches_def)
  have e: "abbr (refresh R h all) = abbr h"
    by (rule abbr_same_fields) (simp add: refresh_same_fields)
  show "case abbr h of
         Inl e \<Rightarrow> hash H (refresh R h all) enc = Inl e
       | Inr d \<Rightarrow> (\<exists>h'. hash H (refresh R h all) enc = Inr (expected_hash H enc d, h'))"
    using hash_no_caches[OF n, of H enc] unfolding e by (auto split: sum.splits)
next
  assume "valid_fields h \<and> valid_fields g \<and> \<not> same_fields h g"
  then show "abbr h \<noteq> abbr g" by (blast dest: abbr_inj)
qed

theorem hash_caching_by_mutable_witness:
  "mutable (genesis_like\<lparr>mutable := True\<rparr>)
   \<and> (\<exists>d. abbr (genesis_like\<lparr>mutable := True\<rparr>) = Inr d
          \<and> hash sample_hash256 (genesis_like\<lparr>mutable := True\<rparr>) JNull
              = Inr (HBuffer (sample_hash256 d), genesis_like\<lparr>mutable := True\<rparr>))
   \<and> hash sample_hash256 (AbstractBlock :: unit header) (JStr ''hex'')
       = Inr (HString (to_hex default_digest),
              cached_default\<lparr>u_hhash := Some (to_hex default_digest)\<rparr>)
   \<and> caches_current sample_hash256 cached_default
   \<and> hash sample_hash256 cached_default JNull = Inr (HBuffer default_digest, cached_default)
   \<and> (\<exists>h'. hash sample_hash256 (refresh id (cached_default\<lparr>version := 2\<rparr>) False) JNull
            = Inr (HBuffer (sample_hash256 (header_bytes 2)), h'))
   \<and> valid_fields ((AbstractBlock :: unit header)\<lparr>version := 1\<rparr>)
   \<and> valid_fields ((AbstractBlock :: unit header)\<lparr>version := 2\<rparr>)
   \<and> abbr ((AbstractBlock :: unit header)\<lparr>version := 1\<rparr>)
       \<noteq> abbr ((AbstractBlock :: unit header)\<lparr>version := 2\<rparr>)"
proof -
  let ?m = "genesis_like\<lparr>mutable := True\<rparr>"
  let ?a = "AbstractBlock :: unit header"
  have m: "mutable ?m" "u_hash ?m = None \<and> u_hhash ?m = None"
    by (simp_all add: genesis_like_def AbstractBlock_def)
  have "valid_fields ?m"
    using valid_genesis_like by (simp add: valid_fields_def)
  then obtain d where d: "abbr ?m = Inr d" by (blast dest: abbr_valid)
  from hash_caching_by_mutable[where h = ?m and H = sample_hash256 and enc = JNull,
      THEN conjunct1] m d
  have 1: "hash sample_hash256 ?m JNull = Inr (HBuffer (sample_hash256 d), ?m)"
    by (simp add: expected_hash_def)
  have ea: "abbr ?a = Inr (header_bytes 1)"
    using abbr_default_fields[of ?a] by (simp add: AbstractBlock_def)
  have na: "u_hash ?a = None \<and> u_hhash ?a = None" "\<not> mutable ?a"
    by (simp_all add: AbstractBlock_def)
  from hash_caching_by_mutable[where h = ?a and H = sample_hash256 and enc = "JStr ''hex''",
      THEN conjunct1] na ea
  have 2: "hash sample_hash256 ?a (JStr ''hex'')
       = Inr (HString (to_hex default_digest),
              cached_default\<lparr>u_hhash := Some (to_hex default_digest)\<rparr>)"
    by (simp add: expected_hash_def default_digest_def cached_default_def)
  have ca: "caches_current sample_hash256 ?a"
    using na by (simp add: caches_current_no_caches)
  from hash_caching_by_mutable[where h = ?a and H = sample_hash256 and enc = JNull and v = "HBuffer default_digest"
      and h' = cached_default,
      THEN conjunct2, THEN conjunct2, THEN conjunct2, THEN conjunct1] ca hash_default
  have 3: "caches_current sample_hash256 cached_default"
    and 4: "hash sample_hash256 cached_default JNull = Inr (HBuffer default_digest, cached_default)"
    by blast+
  from hash_caching_by_mutable[where h = "cached_default\<lparr>version := 2\<rparr>" and H = sample_hash256 and R = id
      and all = False and enc = JNull,
      THEN conjunct2, THEN conjunct2, THEN conjunct2, THEN conjunct2, THEN conjunct1] abbr_cached_v2(1)
  obtain h' where 5: "hash sample_hash256 (refresh id (cached_default\<lparr>version := 2\<rparr>) False) JNull
            = Inr (HBuffer (sample_hash256 (header_bytes 2)), h')"
    by (auto simp: expected_hash_def)
  have v1: "valid_fields (?a\<lparr>version := 1\<rparr>)" and v2: "valid_fields (?a\<lparr>version := 2\<rparr>)"
    by (rule valid_AbstractBlock_version, simp add: is_u32_def)+
  have ns: "\<not> same_fields (?a\<lparr>version := 1\<rparr>) (?a\<lparr>version := 2\<rparr>)"
    by (simp add: same_fields_def)
  from hash_caching_by_mutable[where h = "?a\<lparr>version := 1\<rparr>" and g = "?a\<lparr>version := 2\<rparr>",
      THEN conjunct2, THEN conjunct2, THEN conjunct2, THEN conjunct2, THEN conjunct2] v1 v2 ns
  have 6: "abbr (?a\<lparr>version := 1\<rparr>) \<noteq> abbr (?a\<lparr>version := 2\<rparr>)"
    by blast
  from m(1) d 1 2 3 4 5 v1 v2 6 show ?thesis by blast
qed

text \<open>
  C7, as stated, fails for decoding: \<open>parseAbbr\<close> does not fail before it assigns.
  On 79 bytes (each 1) it assigns version, prevBlock, merkleRoot, ts and bits to the
  object it is called on, and throws TruncatedInput only at the sixth read: the
  constructor's header is left with version 16843009 and its old nonce 0.
\<close>

theorem parseAbbr_short_input_overwrites:
  "parseAbbr (AbstractBlock :: unit header) (new_BufferReader (replicate 79 1))
     = Inl (TruncatedInput,
            AbstractBlock\<lparr>version := 16843009, prevBlock := to_hex (replicate 32 1),
                           merkleRoot := to_hex (replicate 32 1), ts := 16843009,
                           bits := 16843009\<rparr>,
            \<lparr>br_data = replicate 79 1, br_offset = 76\<rparr>)
   \<and> version (AbstractBlock :: unit header) = 1
   \<and> nonce ((AbstractBlock :: unit header)\<lparr>version := 16843009,
         prevBlock := to_hex (replicate 32 1), merkleRoot := to_hex (replicate 32 1),
         ts := 16843009, bits := 16843009\<rparr>) = 0"
proof -
  have "replicate 4 (1 :: byte) = [1, 1, 1, 1]"
    by (simp add: numeral_eq_Suc)
  then have u: "u32_of_le (replicate 4 1) = 16843009"
    by simp
  have "parseAbbr (AbstractBlock :: unit header) (new_BufferReader (replicate 79 1))
     = Inl (TruncatedInput,
            AbstractBlock\<lparr>version := 16843009, prevBlock := to_hex (replicate 32 1),
                           merkleRoot := to_hex (replicate 32 1), ts := 16843009,
                           bits := 16843009\<rparr>,
            \<lparr>br_data = replicate 79 1, br_offset = 76\<rparr>)"
    by (simp add: parseAbbr_eq after_reads_def new_BufferReader_def u)
  then show ?thesis by (simp add: AbstractBlock_def)
qed

text \<open>
  C7, amended. \<open>parseOptions\<close> (and \<open>parseJSON\<close>) on an absent (falsy) options value
  fails with InvalidData; on a present options value where version, ts, bits or nonce is
  not a number or prevBlock or merkleRoot is not a string (a missing property is
  \<open>undefined\<close>) it fails with TypeMismatch; both fail before anything is assigned, so
  the object is left exactly as it was, and a header is returned only when the value is
  present and all six checks pass. \<open>parseAbbr\<close> returns a header exactly when at least
  80 bytes are left; with fewer it fails with TruncatedInput at the first read that runs
  out of bytes, and by then the fields read before are assigned to the object it was
  called on (nothing when fewer than 4 bytes are left; never the nonce, the caches,
  \<open>mutable\<close> or \<open>txs\<close>). A failure returns no header to the caller.
\<close>

theorem construction_rejects_malformed:
  "(\<not> truthy options \<longrightarrow>
       parseOptions h options = Inl (InvalidData, h) \<and>
       parseJSON h options = Inl (InvalidData, h))
   \<and> (truthy options \<and>
        (\<not> isNumber (js_get options ''version'') \<or> \<not> isString (js_get options ''prevBlock'') \<or>
         \<not> isString (js_get options ''merkleRoot'') \<or> \<not> isNumber (js_get options ''ts'') \<or>
         \<not> isNumber (js_get options ''bits'') \<or> \<not> isNumber (js_get options ''nonce'')) \<longrightarrow>
       parseOptions h options = Inl (TypeMismatch, h) \<and>
       parseJSON h options = Inl (TypeMismatch, h))
   \<and> (\<forall>e h'. parseOptions h options = Inl (e, h') \<or> parseJSON h options = Inl (e, h') \<longrightarrow>
         h' = h \<and> (e = InvalidData \<or> e = TypeMismatch))
   \<and> (\<forall>h'. parseOptions h options = Inr h' \<or> parseJSON h options = Inr h' \<longrightarrow>
         truthy options \<and> options_ok options)
   \<and> (wellformed_options options \<longrightarrow>
        (\<exists>h1 h2. parseOptions h options = Inr h1 \<and> parseJSON h options = Inr h2))
   \<and> (length (br_data br) < br_offset br + 80 \<longrightarrow>
        parseAbbr h br = Inl (TruncatedInput, after_reads h br) \<and>
        same_caches h (fst (after_reads h br)) \<and>
        mutable (fst (after_reads h br)) = mutable h \<and>
        txs (fst (after_reads h br)) = txs h \<and>
        nonce (fst (after_reads h br)) = nonce h)
   \<and> (length (br_data br) < br_offset br + 4 \<longrightarrow> parseAbbr h br = Inl (TruncatedInput, h, br))
   \<and> (br_offset br + 4 \<le> length (br_data br) \<longrightarrow>
        version (fst (after_reads h br))
          = of_nat (u32_of_le (take 4 (drop (br_offset br) (br_data br)))))
   \<and> ((\<exists>r. parseAbbr h br = Inr r) \<longleftrightarrow> br_offset br + 80 \<le> length (br_data br))"
proof -
  have 1: "\<not> truthy options \<longrightarrow>
       parseOptions h options = Inl (InvalidData, h) \<and>
       parseJSON h options = Inl (InvalidData, h)"
    by (simp add: parseOptions_cases parseJSON_cases)
  have 2: "truthy options \<and>
        (\<not> isNumber (js_get options ''version'') \<or> \<not> isString (js_get options ''prevBlock'') \<or>
         \<not> isString (js_get options ''merkleRoot'') \<or> \<not> isNumber (js_get options ''ts'') \<or>
         \<not> isNumber (js_get options ''bits'') \<or> \<not> isNumber (js_get options ''nonce'')) \<longrightarrow>
       parseOptions h options = Inl (TypeMismatch, h) \<and>
       parseJSON h options = Inl (TypeMismatch, h)"
    by (auto simp: parseOptions_cases parseJSON_cases options_ok_def)
  have 3: "\<forall>e h'. parseOptions h options = Inl (e, h') \<or> parseJSON h options = Inl (e, h') \<longrightarrow>
         h' = h \<and> (e = InvalidData \<or> e = TypeMismatch)"
    by (auto simp: parseOptions_cases parseJSON_cases split: if_splits)
  have 4: "\<forall>h'. parseOptions h options = Inr h' \<or> parseJSON h options = Inr h' \<longrightarrow>
         truthy options \<and> options_ok options"
    by (auto simp: parseOptions_cases parseJSON_cases split: if_splits)
  have 5: "wellformed_options options \<longrightarrow>
        (\<exists>h1 h2. parseOptions h options = Inr h1 \<and> parseJSON h options = Inr h2)"
    by (auto simp: parseOptions_cases parseJSON_cases dest: wellformed_options_ok)
  have 6: "length (br_data br) < br_offset br + 80 \<longrightarrow>
        parseAbbr h br = Inl (TruncatedInput, after_reads h br) \<and>
        same_caches h (fst (after_reads h br)) \<and>
        mutable (fst (after_reads h br)) = mutable h \<and>
        txs (fst (after_reads h br)) = txs h \<and>
        nonce (fst (after_reads h br)) = nonce h"
    by (simp add: parseAbbr_eq after_reads_frame)
  have 7: "length (br_data br) < br_offset br + 4 \<longrightarrow>
      parseAbbr h br = Inl (TruncatedInput, h, br)"
    by (simp add: parseAbbr_eq after_reads_nothing)
  have 8: "(\<exists>r. parseAbbr h br = Inr r) \<longleftrightarrow> br_offset br + 80 \<le> length (br_data br)"
    by (simp add: parseAbbr_eq)
  have 9: "br_offset br + 4 \<le> length (br_data br) \<longrightarrow>
        version (fst (after_reads h br))
          = of_nat (u32_of_le (take 4 (drop (br_offset br) (br_data br))))"
    by (simp add: after_reads_def Let_def)
  from 1 2 3 4 5 6 7 9 8 show ?thesis by (intro conjI)
qed

theorem construction_rejects_malformed_witness:
  "parseOptions (AbstractBlock :: unit header) JUndefined = Inl (InvalidData, AbstractBlock)
   \<and> parseOptions (AbstractBlock :: unit header) JNull = Inl (InvalidData, AbstractBlock)
   \<and> parseOptions (AbstractBlock :: unit header) no_merkleRoot
       = Inl (TypeMismatch, AbstractBlock)
   \<and> parseAbbr (AbstractBlock :: unit header) (new_BufferReader (replicate 3 1))
       = Inl (TruncatedInput, AbstractBlock, new_BufferReader (replicate 3 1))
   \<and> parseAbbr (AbstractBlock :: unit header) (new_BufferReader (replicate 79 1))
       = Inl (TruncatedInput, after_reads AbstractBlock (new_BufferReader (replicate 79 1)))
   \<and> nonce (fst (after_reads (AbstractBlock :: unit header) (new_BufferReader (replicate 79 1))))
       = 0
   \<and> wellformed_options (sample_options 2 JUndefined)
   \<and> (\<exists>h1. parseOptions (AbstractBlock :: unit header) (sample_options 2 JUndefined) = Inr h1)"
proof -
  let ?a = "AbstractBlock :: unit header"
  let ?o = "sample_options 2 JUndefined"
  note t = construction_rejects_malformed[where h = ?a]
  have 1: "parseOptions ?a JUndefined = Inl (InvalidData, ?a)"
    using t[where options = JUndefined, THEN conjunct1] by simp
  have 2: "parseOptions ?a JNull = Inl (InvalidData, ?a)"
    using t[where options = JNull, THEN conjunct1] by simp
  have 3: "parseOptions ?a no_merkleRoot = Inl (TypeMismatch, ?a)"
    using t[where options = no_merkleRoot, THEN conjunct2, THEN conjunct1]
      js_get_no_merkleRoot
    by (simp add: no_merkleRoot_def)
  have 4: "parseAbbr ?a (new_BufferReader (replicate 3 1))
       = Inl (TruncatedInput, ?a, new_BufferReader (replicate 3 1))"
    using t[where br = "new_BufferReader (replicate 3 1)", THEN conjunct2, THEN conjunct2,
        THEN conjunct2, THEN conjunct2, THEN conjunct2, THEN conjunct2, THEN conjunct1]
    by (simp add: new_BufferReader_def)
  have 5: "parseAbbr ?a (new_BufferReader (replicate 79 1))
       = Inl (TruncatedInput, after_reads ?a (new_BufferReader (replicate 79 1)))"
    and 6: "nonce (fst (after_reads ?a (new_BufferReader (replicate 79 1)))) = 0"
    using t[where br = "new_BufferReader (replicate 79 1)", THEN conjunct2, THEN conjunct2,
        THEN conjunct2, THEN conjunct2, THEN conjunct2, THEN conjunct1]
    by (simp_all add: new_BufferReader_def AbstractBlock_def)
  have w: "wellformed_options ?o"
    by (simp add: wellformed_options_def sample_options_def is_u32_def)
  from t[where options = ?o, THEN conjunct2, THEN conjunct2, THEN conjunct2, THEN conjunct2,
      THEN conjunct1] w
  obtain h1 where 7: "parseOptions ?a ?o = Inr h1" by blast
  from 1 2 3 4 5 6 w 7 show ?thesis by blast
qed

text \<open>
  C8. \<open>parseJSON\<close> succeeds on every well-formed json object and stores \<open>revHex\<close>
  of the prevBlock and merkleRoot strings (whenever it returns), while
  \<open>parseOptions\<close> stores them as given; \<open>rhash\<close> is \<open>revHex\<close> of \<open>hash('hex')\<close>
  and fails where that fails. \<open>revHex\<close> of a hex rendering is the rendering of the
  reversed bytes, and applying it twice gives the rendering back. Hence on a header whose
  hex cache agrees with its raw cache \<open>rhash\<close> is the byte-reversed hex of the hash
  \<open>hash()\<close> returns, and on a header decoded by \<open>parseAbbr\<close> into one without caches
  it is the hex of the reversed digest of the 80 bytes read.
\<close>

theorem display_byte_order:
  "(wellformed_options json \<longrightarrow>
       (\<exists>hJ. parseJSON h json = Inr hJ \<and>
          prevBlock hJ = revHex (str_of (js_get json ''prevBlock'')) \<and>
          merkleRoot hJ = revHex (str_of (js_get json ''merkleRoot''))))
   \<and> (parseJSON h json = Inr h1 \<longrightarrow>
       prevBlock h1 = revHex (str_of (js_get json ''prevBlock'')) \<and>
       merkleRoot h1 = revHex (str_of (js_get json ''merkleRoot'')))
   \<and> (parseOptions h json = Inr h2 \<longrightarrow>
       prevBlock h2 = str_of (js_get json ''prevBlock'') \<and>
       merkleRoot h2 = str_of (js_get json ''merkleRoot''))
   \<and> (\<forall>hex h'. hash H h (JStr ''hex'') = Inr (HString hex, h') \<longrightarrow>
         rhash H h = Inr (revHex hex, h'))
   \<and> (\<forall>e. hash H h (JStr ''hex'') = Inl e \<longrightarrow> rhash H h = Inl e)
   \<and> revHex (to_hex bs) = to_hex (rev bs) \<and> revHex (revHex (to_hex bs)) = to_hex bs
   \<and> (hex_cache_of_raw h \<longrightarrow>
        (\<forall>b hA. hash H h JNull = Inr (HBuffer b, hA) \<longrightarrow>
           (\<exists>hB. rhash H h = Inr (revHex (to_hex b), hB))))
   \<and> (no_caches h0 \<and> parseAbbr h0 br = Inr (h3, br') \<longrightarrow>
        (\<exists>hA hB.
           hash H h3 JNull = Inr (HBuffer (H (take 80 (drop (br_offset br) (br_data br)))), hA) \<and>
           rhash H h3 =
             Inr (to_hex (rev (H (take 80 (drop (br_offset br) (br_data br))))), hB)))"
proof (intro conjI impI allI)
  assume "wellformed_options json"
  then show "\<exists>hJ. parseJSON h json = Inr hJ \<and>
          prevBlock hJ = revHex (str_of (js_get json ''prevBlock'')) \<and>
          merkleRoot hJ = revHex (str_of (js_get json ''merkleRoot''))"
    by (auto simp: parseJSON_cases dest: wellformed_options_ok)
next
  assume "parseJSON h json = Inr h1"
  then show "prevBlock h1 = revHex (str_of (js_get json ''prevBlock''))"
    and "merkleRoot h1 = revHex (str_of (js_get json ''merkleRoot''))"
    by (auto simp: parseJSON_cases split: if_splits)
next
  assume "parseOptions h json = Inr h2"
  then show "prevBlock h2 = str_of (js_get json ''prevBlock'')"
    and "merkleRoot h2 = str_of (js_get json ''merkleRoot'')"
    by (auto simp: parseOptions_cases split: if_splits)
next
  fix hex h' assume "hash H h (JStr ''hex'') = Inr (HString hex, h')"
  then show "rhash H h = Inr (revHex hex, h')" by (simp add: rhash_def)
next
  fix e assume "hash H h (JStr ''hex'') = Inl e"
  then show "rhash H h = Inl e" by (simp add: rhash_def)
next
  show "revHex (to_hex bs) = to_hex (rev bs)" by (rule revHex_to_hex)
  show "revHex (revHex (to_hex bs)) = to_hex bs" by (simp add: revHex_to_hex)
next
  fix b hA assume i: "hex_cache_of_raw h" and r: "hash H h JNull = Inr (HBuffer b, hA)"
  from hash_hex_of_raw[OF i, of JNull H] r
  obtain h2 where "hash H h (JStr ''hex'') = Inr (HString (to_hex b), h2)" by auto
  then have "rhash H h = Inr (revHex (to_hex b), h2)" by (simp add: rhash_def)
  then show "\<exists>hB. rhash H h = Inr (revHex (to_hex b), hB)" by blast
next
  assume a: "no_caches h0 \<and> parseAbbr h0 br = Inr (h3, br')"
  let ?d = "take 80 (drop (br_offset br) (br_data br))"
  from a have enc: "abbr h3 = Inr ?d" by (blast intro: abbr_parseAbbr)
  from a have "same_caches h0 h3" by (blast intro: parse_same_caches)
  with a have n: "no_caches h3" by (simp add: no_caches_def same_caches_def)
  then have i: "hex_cache_of_raw h3" by (rule no_caches_hex_cache)
  from n enc obtain hA where r: "hash H h3 JNull = Inr (HBuffer (H ?d), hA)"
    by (auto simp: hash_raw_cases no_caches_def)
  from hash_hex_of_raw[OF i, of JNull H] r
  obtain h2 where "hash H h3 (JStr ''hex'') = Inr (HString (to_hex (H ?d)), h2)" by auto
  then have "rhash H h3 = Inr (to_hex (rev (H ?d)), h2)"
    by (simp add: rhash_def revHex_to_hex)
  with r show "\<exists>hA hB. hash H h3 JNull = Inr (HBuffer (H ?d), hA) \<and>
      rhash H h3 = Inr (to_hex (rev (H ?d)), hB)"
    by blast
qed

theorem display_byte_order_witness:
  "wellformed_options sample_json
   \<and> (\<exists>hJ. parseJSON (AbstractBlock :: unit header) sample_json = Inr hJ
         \<and> prevBlock hJ = to_hex (rev sample_hash_bytes)
         \<and> merkleRoot hJ = to_hex (rev sample_hash_bytes)
         \<and> prevBlock hJ \<noteq> to_hex sample_hash_bytes)
   \<and> no_caches (AbstractBlock :: unit header)
   \<and> (\<exists>h3 br' hB.
        parseAbbr (AbstractBlock :: unit header) (new_BufferReader (header_bytes 1)) = Inr (h3, br')
        \<and> rhash sample_hash256 h3 = Inr (to_hex (rev default_digest), hB))
   \<and> to_hex (rev default_digest) \<noteq> to_hex default_digest"
proof -
  let ?a = "AbstractBlock :: unit header"
  let ?br = "new_BufferReader (header_bytes 1)"
  from display_byte_order[where h = ?a and json = sample_json, THEN conjunct1]
    wellformed_sample_json
  obtain hJ where j: "parseJSON ?a sample_json = Inr hJ"
    and jp: "prevBlock hJ = revHex (str_of (js_get sample_json ''prevBlock''))"
    and jm: "merkleRoot hJ = revHex (str_of (js_get sample_json ''merkleRoot''))"
    by blast
  note rv = display_byte_order[where bs = sample_hash_bytes, THEN conjunct2, THEN conjunct2,
      THEN conjunct2, THEN conjunct2, THEN conjunct2, THEN conjunct1]
  have p1: "prevBlock hJ = to_hex (rev sample_hash_bytes)"
    and m1: "merkleRoot hJ = to_hex (rev sample_hash_bytes)"
    using jp jm rv by (simp_all add: js_get_sample_json)
  have ne: "prevBlock hJ \<noteq> to_hex sample_hash_bytes"
    unfolding p1 using sample_hash_bytes_not_palindrome by (blast dest: to_hex_inj)
  obtain h3 br' where p: "parseAbbr ?a ?br = Inr (h3, br')"
    by (simp add: parseAbbr_eq new_BufferReader_def length_header_bytes)
  have d: "sample_hash256 (take 80 (drop (br_offset ?br) (br_data ?br))) = default_digest"
    by (simp add: new_BufferReader_def length_header_bytes default_digest_def)
  from display_byte_order[where ?h0.0 = ?a and br = ?br and ?h3.0 = h3
      and br' = br' and H = sample_hash256, THEN conjunct2, THEN conjunct2, THEN conjunct2,
      THEN conjunct2, THEN conjunct2, THEN conjunct2, THEN conjunct2, THEN conjunct2]
    p no_caches_AbstractBlock
  obtain hB where "rhash sample_hash256 h3 =
      Inr (to_hex (rev (sample_hash256 (take 80 (drop (br_offset ?br) (br_data ?br))))), hB)"
    by blast
  then have r: "rhash sample_hash256 h3 = Inr (to_hex (rev default_digest), hB)"
    unfolding d .
  have nd: "to_hex (rev default_digest) \<noteq> to_hex default_digest"
    using default_digest_not_palindrome by (blast dest: to_hex_inj)
  from wellformed_sample_json j p1 m1 ne no_caches_AbstractBlock p r nd
  show ?thesis by blast
qed

text \<open>
  C9. The claim fails on the code: \<open>parseOptions\<close> accepts any finite number as the
  version, and on an options object with version -1 it returns a header whose version is
  negative (and not an unsigned 32-bit integer). Under the writer as modelled here, which
  wraps modulo \<open>2^32\<close>, its encoding is that of version 4294967295. (The constructor
  sets version 1, and \<open>parseAbbr_version_u32\<close> above shows that \<open>parseAbbr\<close> yields an
  unsigned 32-bit version.)
\<close>

theorem parseOptions_negative_version:
  "parseOptions (AbstractBlock :: unit header) (sample_options (- 1) JUndefined)
     = Inr (AbstractBlock\<lparr>version := - 1\<rparr>)
   \<and> version ((AbstractBlock :: unit header)\<lparr>version := - 1\<rparr>) < 0
   \<and> \<not> is_u32 (version ((AbstractBlock :: unit header)\<lparr>version := - 1\<rparr>))
   \<and> abbr ((AbstractBlock :: unit header)\<lparr>version := - 1\<rparr>)
       = abbr ((AbstractBlock :: unit header)\<lparr>version := 4294967295\<rparr>)"
proof -
  have 1: "parseOptions (AbstractBlock :: unit header) (sample_options (- 1) JUndefined)
     = Inr (AbstractBlock\<lparr>version := - 1\<rparr>)"
    by (simp add: parseOptions_sample) (simp add: AbstractBlock_def)
  have 2: "version ((AbstractBlock :: unit header)\<lparr>version := - 1\<rparr>) < 0"
    "\<not> is_u32 (version ((AbstractBlock :: unit header)\<lparr>version := - 1\<rparr>))"
    by (simp_all add: is_u32_def)
  have t: "toUint32 (- 1) = toUint32 4294967295"
    by (simp add: toUint32_def ceiling_def)
  have 3: "abbr ((AbstractBlock :: unit header)\<lparr>version := - 1\<rparr>)
       = abbr ((AbstractBlock :: unit header)\<lparr>version := 4294967295\<rparr>)"
    using abbr_default_fields[of "(AbstractBlock :: unit header)\<lparr>version := - 1\<rparr>"]
      abbr_default_fields[of "(AbstractBlock :: unit header)\<lparr>version := 4294967295\<rparr>"]
    by (simp add: AbstractBlock_def header_bytes_def t)
  from 1 2 3 show ?thesis by simp
qed

text \<open>
  C10. \<open>parseJSON\<close> leaves \<open>mutable\<close> as it was (false on a header fresh from the
  constructor), whatever the json object holds, also a \<open>mutable\<close> property.
  \<open>parseOptions\<close> sets \<open>mutable\<close> to the truthiness of \<open>options.mutable\<close> when that is
  neither \<open>null\<close> nor \<open>undefined\<close>, and leaves it otherwise.
\<close>

theorem parseJSON_keeps_mutable:
  "(parseJSON h json = Inr h' \<longrightarrow> mutable h' = mutable h)
   \<and> (parseJSON AbstractBlock json = Inr h' \<longrightarrow> mutable h' = False)
   \<and> (parseOptions h options = Inr h'' \<longrightarrow>
        mutable h'' = (if notNull (js_get options ''mutable'')
                       then truthy (js_get options ''mutable'') else mutable h))"
  by (auto simp: parseJSON_cases parseOptions_cases AbstractBlock_def split: if_splits)

theorem parseJSON_keeps_mutable_witness:
  "(\<exists>h'. parseJSON (AbstractBlock :: unit header) (sample_options 1 (JBool True)) = Inr h'
         \<and> mutable h' = False)
   \<and> (\<exists>h''. parseOptions (AbstractBlock :: unit header) (sample_options 1 (JBool True)) = Inr h''
         \<and> mutable h'' = True)"
proof -
  let ?o = "sample_options 1 (JBool True)"
  obtain h' where 1: "parseJSON (AbstractBlock :: unit header) ?o = Inr h'"
    by (simp add: parseJSON_cases options_ok_sample truthy_sample)
  obtain h'' where 2: "parseOptions (AbstractBlock :: unit header) ?o = Inr h''"
    by (simp add: parseOptions_cases options_ok_sample truthy_sample)
  from parseJSON_keeps_mutable[where h = "AbstractBlock :: unit header" and json = ?o and h' = h'
      and options = ?o and h'' = h''] 1 2
  have "mutable h' = False" "mutable h'' = True"
    by (auto simp: js_get_mutable_sample)
  with 1 2 show ?thesis by blast
qed

end
